theory Spec2Isabelle
  imports Main "HOL-Library.AList"
begin

section \<open>Strings\<close>

text \<open>
  A JavaScript string is represented by the bytes of its UTF-8 encoding, so that
  \<^verbatim>\<open>new Blob([value]).size\<close> is the length of the list. Byte lists that are no
  well-formed UTF-8 stand for no JavaScript string, and strings with unpaired surrogates
  have no representation; every statement below holds for all byte lists.
\<close>

definition code :: "char \<Rightarrow> nat" where
  "code c = of_char c"

subsection \<open>String.prototype.trim\<close>

text \<open>The white space and line terminators of ECMAScript, in UTF-8. One byte: TAB, LF,
  VT, FF, CR, SP.\<close>

definition ws1 :: "char \<Rightarrow> bool" where
  "ws1 c = (code c = 9 \<or> code c = 10 \<or> code c = 11 \<or> code c = 12 \<or> code c = 13 \<or> code c = 32)"

text \<open>Two bytes: U+00A0 is C2 A0.\<close>

definition ws2 :: "char \<Rightarrow> char \<Rightarrow> bool" where
  "ws2 a b = (code a = 194 \<and> code b = 160)"

text \<open>Three bytes: U+1680, U+2000 to U+200A, U+2028, U+2029, U+202F, U+205F, U+3000,
  U+FEFF.\<close>

definition ws3 :: "char \<Rightarrow> char \<Rightarrow> char \<Rightarrow> bool" where
  "ws3 a b c =
     ((code a = 225 \<and> code b = 154 \<and> code c = 128) \<or>
      (code a = 226 \<and> code b = 128 \<and>
         (128 \<le> code c \<and> code c \<le> 138 \<or> code c = 168 \<or> code c = 169 \<or> code c = 175)) \<or>
      (code a = 226 \<and> code b = 129 \<and> code c = 159) \<or>
      (code a = 227 \<and> code b = 128 \<and> code c = 128) \<or>
      (code a = 239 \<and> code b = 187 \<and> code c = 191))"

fun trimStart :: "string \<Rightarrow> string" where
  "trimStart (a # b # c # s) =
     (if ws1 a then trimStart (b # c # s)
      else if ws2 a b then trimStart (c # s)
      else if ws3 a b c then trimStart s
      else a # b # c # s)"
| "trimStart [a, b] = (if ws1 a then trimStart [b] else if ws2 a b then [] else [a, b])"
| "trimStart [a] = (if ws1 a then [] else [a])"
| "trimStart [] = []"

text \<open>The same from the end, on the reversed string: \<open>c\<close> is the last byte.\<close>

fun trimEnd_rev :: "string \<Rightarrow> string" where
  "trimEnd_rev (c # b # a # s) =
     (if ws1 c then trimEnd_rev (b # a # s)
      else if ws2 b c then trimEnd_rev (a # s)
      else if ws3 a b c then trimEnd_rev s
      else c # b # a # s)"
| "trimEnd_rev [c, b] = (if ws1 c then trimEnd_rev [b] else if ws2 b c then [] else [c, b])"
| "trimEnd_rev [c] = (if ws1 c then [] else [c])"
| "trimEnd_rev [] = []"

definition trim :: "string \<Rightarrow> string" where
  "trim s = rev (trimEnd_rev (rev (trimStart s)))"

subsection \<open>String.prototype.toLowerCase, encodeURIComponent\<close>

text \<open>
  \<^verbatim>\<open>String.prototype.toLowerCase\<close> maps a string through the case tables of Unicode.
  The tables are not written out here: every operation that calls the method takes it as
  the parameter \<open>toLowerCase\<close>, and what is proved of the operation holds for every
  function in its place.
\<close>

type_synonym lowering = "string \<Rightarrow> string"

text \<open>
  No case mapping turns a character into white space, and white space has no case: a
  string that is not blank is not blank once lowered. This is the one property of the
  method that a statement below assumes.
\<close>

definition keeps_nonblank :: "lowering \<Rightarrow> bool" where
  "keeps_nonblank toLowerCase = (\<forall>s. trim s \<noteq> [] \<longrightarrow> trim (toLowerCase s) \<noteq> [])"

text \<open>
  The worked examples are on strings of ASCII characters, where the method maps the
  letters A to Z and keeps every other character.
\<close>

definition lower :: "char \<Rightarrow> char" where
  "lower c =
     (case map_of (zip ''ABCDEFGHIJKLMNOPQRSTUVWXYZ'' ''abcdefghijklmnopqrstuvwxyz'') c of
        Some l \<Rightarrow> l
      | None \<Rightarrow> c)"

definition toLowerCase_ASCII :: lowering where
  "toLowerCase_ASCII s = map lower s"

definition hex_upper :: "nat \<Rightarrow> char" where
  "hex_upper d = ''0123456789ABCDEF'' ! d"

definition hex_lower :: "nat \<Rightarrow> char" where
  "hex_lower d = ''0123456789abcdef'' ! d"

definition uri_unreserved :: "char \<Rightarrow> bool" where
  "uri_unreserved c =
     ((65 \<le> code c \<and> code c \<le> 90) \<or> (97 \<le> code c \<and> code c \<le> 122) \<or>
      (48 \<le> code c \<and> code c \<le> 57) \<or> c \<in> set ''-_.!~*()'' \<or> code c = 39)"

definition encodeURIComponent :: "string \<Rightarrow> string" where
  "encodeURIComponent s =
     concat (map (\<lambda>c. if uri_unreserved c then [c]
                       else [CHR ''%'', hex_upper (code c div 16), hex_upper (code c mod 16)]) s)"

section \<open>The two insertion-ordered stores\<close>

text \<open>
  A \<^verbatim>\<open>Map<string, string>\<close> and the browser's \<^verbatim>\<open>localStorage\<close> are association lists
  in insertion order with one entry per key: \<^verbatim>\<open>Map.prototype.set\<close> overwrites the value of
  a key that is present where it stands and appends a new key at the end, which is
  \<^const>\<open>AList.update\<close>; deleting is \<^const>\<open>AList.delete\<close>.
\<close>

type_synonym js_map = "(string \<times> string) list"

subsection \<open>ImageCacheManager (dst-command-manager.tsx, lines 29-51)\<close>

definition maxCacheSize :: nat where
  "maxCacheSize = 100"

text \<open>\<^verbatim>\<open>return this.memoryCache.get(key) || null\<close>: an empty string is falsy and reads as null.\<close>

definition ImageCacheManager_get :: "js_map \<Rightarrow> string \<Rightarrow> string option" where
  "ImageCacheManager_get memoryCache key =
     (case map_of memoryCache key of
        None \<Rightarrow> None
      | Some v \<Rightarrow> if v = [] then None else Some v)"

text \<open>\<^verbatim>\<open>this.memoryCache.keys().next().value\<close>: undefined (None) on an empty map.\<close>

definition firstKey :: "js_map \<Rightarrow> string option" where
  "firstKey memoryCache = (case memoryCache of [] \<Rightarrow> None | (k, _) # _ \<Rightarrow> Some k)"

text \<open>
  \<^verbatim>\<open>if (firstKey)\<close> is a truthiness test: it fails on undefined and also on the empty
  string, and then nothing is deleted.
\<close>

definition ImageCacheManager_set :: "js_map \<Rightarrow> string \<Rightarrow> string \<Rightarrow> js_map" where
  "ImageCacheManager_set memoryCache key value =
     AList.update key value
       (if maxCacheSize \<le> length memoryCache
        then (case firstKey memoryCache of
                None \<Rightarrow> memoryCache
              | Some k \<Rightarrow> if k \<noteq> [] then AList.delete k memoryCache else memoryCache)
        else memoryCache)"

definition ImageCacheManager_clear :: "js_map \<Rightarrow> js_map" where
  "ImageCacheManager_clear memoryCache = []"

text \<open>A sequence of calls on the cache, applied from left to right.\<close>

datatype cache_call = CallSet string string | CallClear

fun call :: "js_map \<Rightarrow> cache_call \<Rightarrow> js_map" where
  "call m (CallSet key value) = ImageCacheManager_set m key value"
| "call m CallClear = ImageCacheManager_clear m"

definition calls :: "js_map \<Rightarrow> cache_call list \<Rightarrow> js_map" where
  "calls m cs = foldl call m cs"


subsection \<open>localStorage and the StorageAdapter (storage-adapter.ts)\<close>

type_synonym localStorage = "(string \<times> string) list"

text \<open>
  The user agent may refuse a write (\<^verbatim>\<open>setItem\<close> throws QuotaExceededError). Which writes
  it refuses is its own business: the policy is a parameter, \<open>refuses store key value\<close>.
  \<^verbatim>\<open>setItem\<close> returns None where the call throws.
\<close>

type_synonym host = "localStorage \<Rightarrow> string \<Rightarrow> string \<Rightarrow> bool"

definition getItem :: "localStorage \<Rightarrow> string \<Rightarrow> string option" where
  "getItem ls k = map_of ls k"

definition setItem :: "host \<Rightarrow> localStorage \<Rightarrow> string \<Rightarrow> string \<Rightarrow> localStorage option" where
  "setItem refuses ls k v = (if refuses ls k v then None else Some (AList.update k v ls))"

definition removeItem :: "localStorage \<Rightarrow> string \<Rightarrow> localStorage" where
  "removeItem ls k = AList.delete k ls"

definition adapter_prefix :: string where
  "adapter_prefix = ''dst_app_''"

definition startsWith :: "string \<Rightarrow> string \<Rightarrow> bool" where
  "startsWith s p = (take (length p) s = p)"

definition StorageAdapter_list :: "localStorage \<Rightarrow> string \<Rightarrow> string list" where
  "StorageAdapter_list ls p =
     map (drop (length adapter_prefix))
       (filter (\<lambda>key. key \<noteq> [] \<and> startsWith key (adapter_prefix @ p)) (map fst ls))"

definition StorageAdapter_get :: "localStorage \<Rightarrow> string \<Rightarrow> string option" where
  "StorageAdapter_get ls key = getItem ls (adapter_prefix @ key)"

text \<open>
  The whole body of \<^verbatim>\<open>set\<close> is inside try/catch and the handler returns false, so the
  call returns a boolean on every path: an empty value (the thrown Error is caught), a
  value over 4,800,000 bytes, a write the user agent refuses, a write that goes through.
\<close>

definition StorageAdapter_set ::
  "host \<Rightarrow> localStorage \<Rightarrow> string \<Rightarrow> string \<Rightarrow> bool \<times> localStorage" where
  "StorageAdapter_set refuses ls key value =
     (if value = [] then (False, ls)
      else if 4800000 < length value then (False, ls)
      else (case setItem refuses ls (adapter_prefix @ key) value of
              None \<Rightarrow> (False, ls)
            | Some ls' \<Rightarrow> (True, ls')))"

definition StorageAdapter_delete :: "localStorage \<Rightarrow> string \<Rightarrow> bool \<times> localStorage" where
  "StorageAdapter_delete ls key = (True, removeItem ls (adapter_prefix @ key))"

text \<open>The states the cache reaches when no key is the empty string: one entry per key,
  no empty key, at most \<open>maxCacheSize\<close> entries.\<close>

definition cache_inv :: "js_map \<Rightarrow> bool" where
  "cache_inv m = (distinct (map fst m) \<and> [] \<notin> fst ` set m \<and> length m \<le> maxCacheSize)"

fun sets_key :: "string \<Rightarrow> cache_call \<Rightarrow> bool" where
  "sets_key key (CallSet k v) = (k = key)"
| "sets_key key CallClear = False"

section \<open>JSON\<close>

text \<open>
  The values \<^verbatim>\<open>JSON.parse\<close> returns. A number is an integer here: the program writes ids
  and \<^verbatim>\<open>Date.now()\<close> readings only. The members of an object are kept in the order of
  the text, duplicates included; a property read takes the last one, as the parser's
  object does.
\<close>

datatype json =
  JNull | JBool bool | JNum int | JStr string | JArr "json list" | JObj "(string \<times> json) list"

subsection \<open>JSON.stringify\<close>

definition digit_char :: "nat \<Rightarrow> char" where
  "digit_char d = ''0123456789'' ! d"

fun show_nat :: "nat \<Rightarrow> string" where
  "show_nat n = (if n < 10 then [digit_char n] else show_nat (n div 10) @ [digit_char (n mod 10)])"

declare show_nat.simps [simp del]

text \<open>Number to string for an integer below \<open>10\<^sup>2\<^sup>1\<close> in absolute value: the decimal digits.\<close>

definition show_int :: "int \<Rightarrow> string" where
  "show_int i = (if i < 0 then CHR ''-'' # show_nat (nat (- i)) else show_nat (nat i))"

definition escape_char :: "char \<Rightarrow> string" where
  "escape_char c =
     (if c = CHR 0x22 then [CHR 0x5C, CHR 0x22]
      else if c = CHR 0x5C then [CHR 0x5C, CHR 0x5C]
      else if code c = 8 then [CHR 0x5C, CHR ''b'']
      else if code c = 12 then [CHR 0x5C, CHR ''f'']
      else if code c = 10 then [CHR 0x5C, CHR ''n'']
      else if code c = 13 then [CHR 0x5C, CHR ''r'']
      else if code c = 9 then [CHR 0x5C, CHR ''t'']
      else if code c < 32 then
        [CHR 0x5C, CHR ''u'', CHR ''0'', CHR ''0'', hex_lower (code c div 16), hex_lower (code c mod 16)]
      else [c])"

definition quote :: "string \<Rightarrow> string" where
  "quote s = CHR 0x22 # concat (map escape_char s) @ [CHR 0x22]"

fun join :: "string list \<Rightarrow> string" where
  "join [] = []"
| "join [x] = x"
| "join (x # y # zs) = x @ CHR '','' # join (y # zs)"

fun JSON_stringify :: "json \<Rightarrow> string" where
  "JSON_stringify JNull = ''null''"
| "JSON_stringify (JBool b) = (if b then ''true'' else ''false'')"
| "JSON_stringify (JNum i) = show_int i"
| "JSON_stringify (JStr s) = quote s"
| "JSON_stringify (JArr xs) = CHR ''['' # join (map JSON_stringify xs) @ '']''"
| "JSON_stringify (JObj ms) =
     CHR ''{'' # join (map (\<lambda>m. quote (fst m) @ CHR '':'' # JSON_stringify (snd m)) ms) @ ''}''"

subsection \<open>JSON.parse\<close>

text \<open>
  \<open>SyntaxError\<close> is the exception of \<^verbatim>\<open>JSON.parse\<close>. \<open>Unsupported\<close> says that the text is
  beyond this parser, which then tells nothing about what JavaScript does with it: a
  number with a fraction or an exponent or beyond \<open>2\<^sup>5\<^sup>3 - 1\<close>, an escape \<^verbatim>\<open>\u\<close> of a code
  unit from 128 on, or recursion deeper than the fuel, which is the length of the text.
\<close>

datatype 'a result = Parsed 'a | SyntaxError | Unsupported

definition and_then :: "'a result \<Rightarrow> ('a \<Rightarrow> 'b result) \<Rightarrow> 'b result" where
  "and_then r f = (case r of Parsed x \<Rightarrow> f x | SyntaxError \<Rightarrow> SyntaxError | Unsupported \<Rightarrow> Unsupported)"

definition json_ws :: "char \<Rightarrow> bool" where
  "json_ws c = (code c = 32 \<or> code c = 9 \<or> code c = 10 \<or> code c = 13)"

definition skip_ws :: "string \<Rightarrow> string" where
  "skip_ws s = dropWhile json_ws s"

definition is_digit :: "char \<Rightarrow> bool" where
  "is_digit c = (48 \<le> code c \<and> code c \<le> 57)"

definition hex_value :: "char \<Rightarrow> nat option" where
  "hex_value c =
     (if is_digit c then Some (code c - 48)
      else if 97 \<le> code c \<and> code c \<le> 102 then Some (code c - 87)
      else if 65 \<le> code c \<and> code c \<le> 70 then Some (code c - 55)
      else None)"

definition hex4 :: "char \<Rightarrow> char \<Rightarrow> char \<Rightarrow> char \<Rightarrow> nat option" where
  "hex4 a b c d =
     (case (hex_value a, hex_value b, hex_value c, hex_value d) of
        (Some w, Some x, Some y, Some z) \<Rightarrow> Some (((w * 16 + x) * 16 + y) * 16 + z)
      | _ \<Rightarrow> None)"

definition unescape :: "char \<Rightarrow> char option" where
  "unescape e =
     (if e = CHR 0x22 \<or> e = CHR 0x5C \<or> e = CHR ''/'' then Some e
      else if e = CHR ''b'' then Some (CHR 0x08)
      else if e = CHR ''f'' then Some (CHR 0x0C)
      else if e = CHR ''n'' then Some (CHR 0x0A)
      else if e = CHR ''r'' then Some (CHR 0x0D)
      else if e = CHR ''t'' then Some (CHR 0x09)
      else None)"

definition push_char :: "char \<Rightarrow> (string \<times> string) result \<Rightarrow> (string \<times> string) result" where
  "push_char c r = and_then r (\<lambda>(str, rest). Parsed (c # str, rest))"

text \<open>The characters of a string literal after its opening quote, and the rest of the text.\<close>

fun parse_chars :: "string \<Rightarrow> (string \<times> string) result" where
  "parse_chars [] = SyntaxError"
| "parse_chars (c # s) =
     (if c = CHR 0x22 then Parsed ([], s)
      else if c = CHR 0x5C then
        (case s of
           [] \<Rightarrow> SyntaxError
         | e # s' \<Rightarrow>
             if e = CHR ''u'' then
               (case s' of
                  h1 # h2 # h3 # h4 # s'' \<Rightarrow>
                    (case hex4 h1 h2 h3 h4 of
                       None \<Rightarrow> SyntaxError
                     | Some n \<Rightarrow> if n < 128 then push_char (char_of n) (parse_chars s'') else Unsupported)
                | _ \<Rightarrow> SyntaxError)
             else (case unescape e of
                     None \<Rightarrow> SyntaxError
                   | Some x \<Rightarrow> push_char x (parse_chars s')))
      else if code c < 32 then SyntaxError
      else push_char c (parse_chars s))"

definition digits_value :: "string \<Rightarrow> nat" where
  "digits_value ds = foldl (\<lambda>n c. 10 * n + (code c - 48)) 0 ds"

definition max_safe_integer :: nat where
  "max_safe_integer = 9007199254740991"

definition parse_number :: "string \<Rightarrow> (json \<times> string) result" where
  "parse_number s =
     (let negative = (case s of c # _ \<Rightarrow> c = CHR ''-'' | [] \<Rightarrow> False);
          s1 = (if negative then tl s else s)
      in case s1 of
           [] \<Rightarrow> SyntaxError
         | d # t \<Rightarrow>
             if is_digit d then
               (let ds = (if d = CHR ''0'' then [d] else takeWhile is_digit s1);
                    rest = drop (length ds) s1;
                    n = digits_value ds
                in if (case rest of c # _ \<Rightarrow> c = CHR ''.'' \<or> c = CHR ''e'' \<or> c = CHR ''E'' | [] \<Rightarrow> False)
                     \<or> max_safe_integer < n
                   then Unsupported
                   else Parsed (JNum (if negative then - int n else int n), rest))
             else SyntaxError)"

fun parse_value :: "nat \<Rightarrow> string \<Rightarrow> (json \<times> string) result"
and parse_elements :: "nat \<Rightarrow> string \<Rightarrow> (json list \<times> string) result"
and parse_members :: "nat \<Rightarrow> string \<Rightarrow> ((string \<times> json) list \<times> string) result" where
  "parse_value 0 s = Unsupported"
| "parse_value (Suc n) s =
     (case skip_ws s of
        [] \<Rightarrow> SyntaxError
      | c # t \<Rightarrow>
          if c = CHR ''{'' then
            (case skip_ws t of
               [] \<Rightarrow> SyntaxError
             | c' # t' \<Rightarrow>
                 if c' = CHR ''}'' then Parsed (JObj [], t')
                 else and_then (parse_members n (c' # t')) (\<lambda>(ms, r). Parsed (JObj ms, r)))
          else if c = CHR ''['' then
            (case skip_ws t of
               [] \<Rightarrow> SyntaxError
             | c' # t' \<Rightarrow>
                 if c' = CHR '']'' then Parsed (JArr [], t')
                 else and_then (parse_elements n (c' # t')) (\<lambda>(xs, r). Parsed (JArr xs, r)))
          else if c = CHR 0x22 then and_then (parse_chars t) (\<lambda>(str, r). Parsed (JStr str, r))
          else if c = CHR ''-'' \<or> is_digit c then parse_number (c # t)
          else if take 4 (c # t) = ''true'' then Parsed (JBool True, drop 4 (c # t))
          else if take 5 (c # t) = ''false'' then Parsed (JBool False, drop 5 (c # t))
          else if take 4 (c # t) = ''null'' then Parsed (JNull, drop 4 (c # t))
          else SyntaxError)"
| "parse_elements 0 s = Unsupported"
| "parse_elements (Suc n) s =
     and_then (parse_value n s) (\<lambda>(x, r).
       case skip_ws r of
         [] \<Rightarrow> SyntaxError
       | c # r' \<Rightarrow>
           if c = CHR '','' then and_then (parse_elements n r') (\<lambda>(xs, r''). Parsed (x # xs, r''))
           else if c = CHR '']'' then Parsed ([x], r')
           else SyntaxError)"
| "parse_members 0 s = Unsupported"
| "parse_members (Suc n) s =
     (case skip_ws s of
        [] \<Rightarrow> SyntaxError
      | q # t \<Rightarrow>
          if q = CHR 0x22 then
            and_then (parse_chars t) (\<lambda>(k, r).
              case skip_ws r of
                [] \<Rightarrow> SyntaxError
              | c # r' \<Rightarrow>
                  if c = CHR '':'' then
                    and_then (parse_value n r') (\<lambda>(v, r'').
                      case skip_ws r'' of
                        [] \<Rightarrow> SyntaxError
                      | c' # r3 \<Rightarrow>
                          if c' = CHR '','' then
                            and_then (parse_members n r3) (\<lambda>(ms, r4). Parsed ((k, v) # ms, r4))
                          else if c' = CHR ''}'' then Parsed ([(k, v)], r3)
                          else SyntaxError)
                  else SyntaxError)
          else SyntaxError)"

definition JSON_parse :: "string \<Rightarrow> json result" where
  "JSON_parse s =
     and_then (parse_value (Suc (length s)) s)
       (\<lambda>(v, r). if skip_ws r = [] then Parsed v else SyntaxError)"

subsection \<open>Reading a parsed value\<close>

text \<open>JavaScript truthiness of a JSON value.\<close>

fun truthy :: "json \<Rightarrow> bool" where
  "truthy JNull = False"
| "truthy (JBool b) = b"
| "truthy (JNum n) = (n \<noteq> 0)"
| "truthy (JStr s) = (s \<noteq> [])"
| "truthy (JArr xs) = True"
| "truthy (JObj ms) = True"

text \<open>
  \<^verbatim>\<open>x?.name\<close>, for the names this program reads (\<^verbatim>\<open>query\<close>, \<^verbatim>\<open>pages\<close>, \<^verbatim>\<open>imageinfo\<close>,
  \<^verbatim>\<open>url\<close>, \<^verbatim>\<open>timestamp\<close>), none of which is a property of an array, a string, a number
  or a boolean. None is undefined.
\<close>

fun member :: "string \<Rightarrow> json option \<Rightarrow> json option" where
  "member name (Some (JObj ms)) = map_of (rev ms) name"
| "member name v = None"

text \<open>\<^verbatim>\<open>x?.[0]\<close>. The first code unit of a string is again a string, cut here after one byte;
  a string has none of the members above, so its content is never read.\<close>

fun index0 :: "json option \<Rightarrow> json option" where
  "index0 (Some (JArr (x # xs))) = Some x"
| "index0 (Some (JObj ms)) = map_of (rev ms) ''0''"
| "index0 (Some (JStr (c # s))) = Some (JStr [c])"
| "index0 v = None"

section \<open>Commands, tags and the component state (dst-command-manager.tsx)\<close>

text \<open>
  The interfaces \<^verbatim>\<open>Command\<close> and \<^verbatim>\<open>Tag\<close>. \<^verbatim>\<open>JSON.stringify\<close> writes the own properties of
  an object in the order the object got them, and for a command this order is not always
  the same: the literals of \<^verbatim>\<open>DEFAULT_COMMANDS\<close> have \<^verbatim>\<open>favorite\<close> before \<^verbatim>\<open>category\<close>,
  the literal of \<^verbatim>\<open>handleSave\<close> (lines 527-535) has \<^verbatim>\<open>category\<close> first, an object that
  \<^verbatim>\<open>JSON.parse\<close> made has the order of the stored text, and a copy \<^verbatim>\<open>{ ...cmd, tags }\<close>
  has the order of \<^verbatim>\<open>cmd\<close>. So a command carries \<open>cmd_keys\<close>, its \<^verbatim>\<open>Object.keys\<close>. A tag is
  only ever written from a literal \<^verbatim>\<open>{ id, name, color }\<close>.
\<close>

record Tag =
  tag_id :: int
  tag_name :: string
  tag_color :: string

record Command =
  cmd_id :: int
  cmd_name :: string
  cmd_command :: string
  cmd_image :: string
  cmd_tags :: "string list"
  cmd_category :: "string option"
  cmd_favorite :: bool
  cmd_keys :: "string list"

text \<open>The order of the properties in the literals of \<^verbatim>\<open>DEFAULT_COMMANDS\<close>, and the order
  in the literal of \<^verbatim>\<open>handleSave\<close>.\<close>

definition default_keys :: "string list" where
  "default_keys = [''id'', ''name'', ''command'', ''image'', ''tags'', ''favorite'', ''category'']"

definition saved_keys :: "string list" where
  "saved_keys = [''id'', ''name'', ''command'', ''image'', ''tags'', ''category'', ''favorite'']"

definition DEFAULT_COMMANDS :: "Command list" where
  "DEFAULT_COMMANDS =
     [\<lparr>cmd_id = 1, cmd_name = ''God Mode'', cmd_command = ''c_godmode()'',
       cmd_image = ''https://static.wikia.nocookie.net/dont-starve-game/images/4/42/Wilson_Portrait.png/revision/latest?cb=20160723191003'',
       cmd_tags = [''Admin''], cmd_category = None, cmd_favorite = False, cmd_keys = default_keys\<rparr>,
      \<lparr>cmd_id = 2, cmd_name = ''Spawn Spider'', cmd_command = ''c_spawn(\"spider\")'',
       cmd_image = ''https://static.wikia.nocookie.net/dont-starve-game/images/1/14/Spider_Build.png/revision/latest?cb=20160723194014'',
       cmd_tags = [''Spawning''], cmd_category = Some ''spawn'', cmd_favorite = False, cmd_keys = default_keys\<rparr>,
      \<lparr>cmd_id = 3, cmd_name = ''Give Gold'', cmd_command = ''c_give(\"goldnugget\", 40)'',
       cmd_image = ''https://static.wikia.nocookie.net/dont-starve-game/images/9/92/Gold_Nugget.png/revision/latest?cb=20160723185614'',
       cmd_tags = [''Items''], cmd_category = Some ''give'', cmd_favorite = True, cmd_keys = default_keys\<rparr>]"

definition DEFAULT_TAGS :: "Tag list" where
  "DEFAULT_TAGS =
     [\<lparr>tag_id = 1, tag_name = ''Admin'', tag_color = ''#ef4444''\<rparr>,
      \<lparr>tag_id = 2, tag_name = ''Spawning'', tag_color = ''#8b5cf6''\<rparr>,
      \<lparr>tag_id = 3, tag_name = ''Items'', tag_color = ''#10b981''\<rparr>]"

subsection \<open>Entities as JSON\<close>

definition Tag_json :: "Tag \<Rightarrow> json" where
  "Tag_json t =
     JObj [(''id'', JNum (tag_id t)), (''name'', JStr (tag_name t)), (''color'', JStr (tag_color t))]"

text \<open>The properties of a command by name, and the object \<^verbatim>\<open>JSON.stringify\<close> sees: the
  properties in the order of \<open>cmd_keys\<close>.\<close>

definition Command_members :: "Command \<Rightarrow> (string \<times> json) list" where
  "Command_members c =
     [(''id'', JNum (cmd_id c)), (''name'', JStr (cmd_name c)), (''command'', JStr (cmd_command c)),
      (''image'', JStr (cmd_image c)), (''tags'', JArr (map JStr (cmd_tags c))),
      (''category'', (case cmd_category c of None \<Rightarrow> JNull | Some s \<Rightarrow> JStr s)),
      (''favorite'', JBool (cmd_favorite c))]"

definition Command_json :: "Command \<Rightarrow> json" where
  "Command_json c =
     JObj (List.map_filter (\<lambda>k. map_option (Pair k) (map_of (Command_members c) k)) (cmd_keys c))"

text \<open>
  The parsed value of a stored record is pushed as it is (\<^verbatim>\<open>JSON.parse(data.value)\<close> has
  type any). The records of the model hold the values that have the members of the
  interface, in any order, and no other; for any other value the view is None, and a
  load that meets one is outside the model.
\<close>

fun as_strings :: "json list \<Rightarrow> string list option" where
  "as_strings [] = Some []"
| "as_strings (JStr s # xs) = map_option ((#) s) (as_strings xs)"
| "as_strings (x # xs) = None"

definition as_Tag :: "json \<Rightarrow> Tag option" where
  "as_Tag j =
     (case j of
        JObj ms \<Rightarrow>
          (case (map_of ms ''id'', map_of ms ''name'', map_of ms ''color'') of
             (Some (JNum i), Some (JStr n), Some (JStr c)) \<Rightarrow>
               if length ms = 3 then Some \<lparr>tag_id = i, tag_name = n, tag_color = c\<rparr> else None
           | _ \<Rightarrow> None)
      | _ \<Rightarrow> None)"

definition as_category :: "json \<Rightarrow> string option option" where
  "as_category j = (case j of JNull \<Rightarrow> Some None | JStr s \<Rightarrow> Some (Some s) | _ \<Rightarrow> None)"

definition as_Command :: "json \<Rightarrow> Command option" where
  "as_Command j =
     (case j of
        JObj ms \<Rightarrow>
          (case (map_of ms ''id'', map_of ms ''name'', map_of ms ''command'', map_of ms ''image'') of
             (Some (JNum i), Some (JStr n), Some (JStr c), Some (JStr im)) \<Rightarrow>
               (case (map_of ms ''tags'', map_of ms ''favorite'', map_of ms ''category'') of
                  (Some (JArr ts), Some (JBool f), Some cat) \<Rightarrow>
                    (case (as_strings ts, as_category cat) of
                       (Some tgs, Some ca) \<Rightarrow>
                         if length ms = 7
                         then Some \<lparr>cmd_id = i, cmd_name = n, cmd_command = c, cmd_image = im,
                                    cmd_tags = tgs, cmd_category = ca, cmd_favorite = f,
                                    cmd_keys = map fst ms\<rparr>
                         else None
                     | _ \<Rightarrow> None)
                | _ \<Rightarrow> None)
           | _ \<Rightarrow> None)
      | _ \<Rightarrow> None)"

subsection \<open>The state of the component\<close>

datatype toast_type = Success | Error | Info

text \<open>
  \<open>local_storage\<close> is the browser's store, \<open>window_storage\<close> says whether \<^verbatim>\<open>window.storage\<close>
  is defined, \<open>mounted\<close> is \<^verbatim>\<open>isMountedRef.current\<close>; the other fields are the React state
  the operations below touch. \<open>set_calls\<close> is not in the source: it records the calls of
  \<^verbatim>\<open>window.storage.set\<close>, key and value, in the order they are made. A toast is its
  message and type (its id is random and its duration follows from the type).
\<close>

record app =
  local_storage :: localStorage
  window_storage :: bool
  mounted :: bool
  tags :: "Tag list"
  commands :: "Command list"
  toasts :: "(string \<times> toast_type) list"
  loading :: bool
  editingTagId :: "int option"
  editTagName :: string
  editTagColor :: string
  set_calls :: "(string \<times> string) list"

definition addToast :: "app \<Rightarrow> string \<Rightarrow> toast_type \<Rightarrow> app" where
  "addToast st message type = st\<lparr>toasts := toasts st @ [(message, type)]\<rparr>"

text \<open>\<^verbatim>\<open>await window.storage.set(key, value)\<close>, with \<^verbatim>\<open>window.storage\<close> defined.\<close>

definition window_storage_set :: "host \<Rightarrow> app \<Rightarrow> string \<Rightarrow> string \<Rightarrow> bool \<times> app" where
  "window_storage_set refuses st key value =
     (fst (StorageAdapter_set refuses (local_storage st) key value),
      st\<lparr>local_storage := snd (StorageAdapter_set refuses (local_storage st) key value),
         set_calls := set_calls st @ [(key, value)]\<rparr>)"

subsection \<open>initializeDefaults, initializeDefaultTags, loadData (lines 324-417)\<close>

text \<open>
  Each write is in its own try/catch and its result is not looked at. Where
  \<^verbatim>\<open>window.storage\<close> is undefined the call throws a TypeError, which is caught: nothing
  is written.
\<close>

definition initializeDefaults :: "host \<Rightarrow> app \<Rightarrow> app" where
  "initializeDefaults refuses st =
     (if window_storage st
      then foldl (\<lambda>s cmd. snd (window_storage_set refuses s (''dst:'' @ show_int (cmd_id cmd))
                                   (JSON_stringify (Command_json cmd)))) st DEFAULT_COMMANDS
      else st)"

definition initializeDefaultTags :: "host \<Rightarrow> app \<Rightarrow> app" where
  "initializeDefaultTags refuses st =
     (if window_storage st
      then foldl (\<lambda>s tag. snd (window_storage_set refuses s (''dsttag:'' @ show_int (tag_id tag))
                                   (JSON_stringify (Tag_json tag)))) st DEFAULT_TAGS
      else st)"

text \<open>
  The loop over the listed keys, for tags and for commands: a missing or empty value is
  skipped, a value that does not parse is skipped (the SyntaxError is caught and logged), a
  parsed value is pushed. None: a text or a value outside the model.
\<close>

fun load_records :: "(json \<Rightarrow> 'a option) \<Rightarrow> localStorage \<Rightarrow> string list \<Rightarrow> 'a list option" where
  "load_records view ls [] = Some []"
| "load_records view ls (key # keys) =
     (case StorageAdapter_get ls key of
        None \<Rightarrow> load_records view ls keys
      | Some v \<Rightarrow>
          if v = [] then load_records view ls keys
          else (case JSON_parse v of
                  SyntaxError \<Rightarrow> load_records view ls keys
                | Unsupported \<Rightarrow> None
                | Parsed j \<Rightarrow>
                    (case view j of
                       None \<Rightarrow> None
                     | Some x \<Rightarrow> map_option ((#) x) (load_records view ls keys))))"

text \<open>Lines 333-355, the tags, and lines 357-379, the commands.\<close>

definition load_tags :: "host \<Rightarrow> app \<Rightarrow> app option" where
  "load_tags refuses st =
     (let keys = StorageAdapter_list (local_storage st) ''dsttag:'' in
      if keys = [] then
        (let st1 = initializeDefaultTags refuses st
         in Some (if mounted st1 then st1\<lparr>tags := DEFAULT_TAGS\<rparr> else st1))
      else
        (case load_records as_Tag (local_storage st) keys of
           None \<Rightarrow> None
         | Some loadedTags \<Rightarrow>
             Some (if mounted st then st\<lparr>tags := sort_key tag_id loadedTags\<rparr> else st)))"

definition load_commands :: "host \<Rightarrow> app \<Rightarrow> app option" where
  "load_commands refuses st =
     (let keys = StorageAdapter_list (local_storage st) ''dst:'' in
      if keys = [] then
        (let st1 = initializeDefaults refuses st
         in Some (if mounted st1 then st1\<lparr>commands := DEFAULT_COMMANDS\<rparr> else st1))
      else
        (case load_records as_Command (local_storage st) keys of
           None \<Rightarrow> None
         | Some loadedCommands \<Rightarrow>
             Some (if mounted st then st\<lparr>commands := sort_key cmd_id loadedCommands\<rparr> else st)))"

text \<open>
  \<^verbatim>\<open>loadData\<close>: the only throw of the try block is the one for a missing
  \<^verbatim>\<open>window.storage\<close>; its handler reports, and then seeds and sets the defaults when the
  component is mounted. \<^verbatim>\<open>finally\<close> clears \<^verbatim>\<open>loading\<close>.
\<close>

definition loadData :: "host \<Rightarrow> app \<Rightarrow> app option" where
  "loadData refuses st =
     map_option (\<lambda>s. if mounted s then s\<lparr>loading := False\<rparr> else s)
       (if window_storage st then
          (case load_tags refuses st of
             None \<Rightarrow> None
           | Some st1 \<Rightarrow> load_commands refuses st1)
        else
          (let st1 = addToast st ''Failed to load data. Using default commands.'' Error
           in Some (if mounted st1
                    then (initializeDefaults refuses (initializeDefaultTags refuses st1))
                           \<lparr>tags := DEFAULT_TAGS, commands := DEFAULT_COMMANDS\<rparr>
                    else st1)))"

subsection \<open>handleSaveTag (lines 644-688)\<close>

text \<open>The loop over \<^verbatim>\<open>commands\<close>, the list the handler was created with; each
  \<^verbatim>\<open>setCommands\<close> maps over the current state.\<close>

fun rename_in_commands :: "host \<Rightarrow> string \<Rightarrow> string \<Rightarrow> Command list \<Rightarrow> app \<Rightarrow> app" where
  "rename_in_commands refuses oldName trimmedName [] st = st"
| "rename_in_commands refuses oldName trimmedName (cmd # cmds) st =
     (if oldName \<in> set (cmd_tags cmd) then
        (let updatedTags = map (\<lambda>t. if t = oldName then trimmedName else t) (cmd_tags cmd);
             updatedCommand = cmd\<lparr>cmd_tags := updatedTags\<rparr>;
             st1 = snd (window_storage_set refuses st (''dst:'' @ show_int (cmd_id cmd))
                          (JSON_stringify (Command_json updatedCommand)));
             st2 = st1\<lparr>commands :=
                         map (\<lambda>c. if cmd_id c = cmd_id cmd then updatedCommand else c) (commands st1)\<rparr>
         in rename_in_commands refuses oldName trimmedName cmds st2)
      else rename_in_commands refuses oldName trimmedName cmds st)"

definition name_taken :: "lowering \<Rightarrow> Tag list \<Rightarrow> int \<Rightarrow> string \<Rightarrow> bool" where
  "name_taken toLowerCase ts i trimmedName =
     list_ex (\<lambda>t. tag_id t \<noteq> i \<and> toLowerCase (tag_name t) = toLowerCase trimmedName) ts"

definition handleSaveTag :: "lowering \<Rightarrow> host \<Rightarrow> app \<Rightarrow> int \<Rightarrow> app" where
  "handleSaveTag toLowerCase refuses st i =
     (let trimmedName = trim (editTagName st) in
      if trimmedName = [] then addToast st ''Tag name is required!'' Error
      else if name_taken toLowerCase (tags st) i trimmedName
      then addToast st ''A tag with this name already exists!'' Error
      else if window_storage st then
        (let oldTag = find (\<lambda>t. tag_id t = i) (tags st);
             updatedTag = \<lparr>tag_id = i, tag_name = trimmedName, tag_color = editTagColor st\<rparr>;
             st1 = snd (window_storage_set refuses st (''dsttag:'' @ show_int i)
                          (JSON_stringify (Tag_json updatedTag)));
             st2 = (case oldTag of
                      None \<Rightarrow> st1
                    | Some old \<Rightarrow>
                        if tag_name old \<noteq> trimmedName
                        then rename_in_commands refuses (tag_name old) trimmedName (commands st) st1
                        else st1)
         in if mounted st2
            then addToast
                   (st2\<lparr>tags := map (\<lambda>t. if tag_id t = i then updatedTag else t) (tags st2),
                        editingTagId := None\<rparr>)
                   ''Tag saved successfully'' Success
            else st2)
      else addToast st ''Failed to save tag. Please try again.'' Error)"

section \<open>fetchDSTImage (lines 55-136)\<close>

subsection \<open>The localStorage cache (lines 68-86 and 114-124)\<close>

definition cache_expiry :: int where
  "cache_expiry = 7 * 24 * 60 * 60 * 1000"

definition image_key :: "string \<Rightarrow> string" where
  "image_key cacheKey = ''dst_img_'' @ cacheKey"

text \<open>
  \<^verbatim>\<open>Date.now() - timestamp\<close>. The outer None is a timestamp whose conversion to a number
  is not modelled (a string, an array, an object); the inner None is NaN, for a
  timestamp that is undefined.
\<close>

fun age :: "int \<Rightarrow> json option \<Rightarrow> int option option" where
  "age now None = Some None"
| "age now (Some (JNum t)) = Some (Some (now - t))"
| "age now (Some JNull) = Some (Some now)"
| "age now (Some (JBool b)) = Some (Some (now - (if b then 1 else 0)))"
| "age now (Some v) = None"

text \<open>
  What the block of lines 68-86 does: \<open>Hit url\<close> returns the url from \<^verbatim>\<open>fetchDSTImage\<close>
  (after putting it into the memory cache); \<open>Miss ls\<close> goes on to the wiki with the
  store \<open>ls\<close>; \<open>Beyond\<close> is a stored text outside the model. A text that does not parse,
  and the text \<^verbatim>\<open>null\<close>, whose destructuring throws a TypeError, end in the handler, which
  logs: the record stays. A comparison with NaN is false, so a record without a
  timestamp is removed as expired.
\<close>

datatype durable = Hit string | Miss localStorage | Beyond

definition read_image_cache :: "int \<Rightarrow> localStorage \<Rightarrow> string \<Rightarrow> durable" where
  "read_image_cache now ls cacheKey =
     (case getItem ls (image_key cacheKey) of
        None \<Rightarrow> Miss ls
      | Some stored \<Rightarrow>
          if stored = [] then Miss ls
          else (case JSON_parse stored of
                  SyntaxError \<Rightarrow> Miss ls
                | Unsupported \<Rightarrow> Beyond
                | Parsed j \<Rightarrow>
                    if j = JNull then Miss ls
                    else (case age now (member ''timestamp'' (Some j)) of
                            None \<Rightarrow> Beyond
                          | Some a \<Rightarrow>
                              if (case a of None \<Rightarrow> False | Some n \<Rightarrow> n < cache_expiry)
                              then (case member ''url'' (Some j) of
                                      Some (JStr url) \<Rightarrow> Hit url
                                    | _ \<Rightarrow> Beyond)
                              else Miss (removeItem ls (image_key cacheKey)))))"

text \<open>The write of lines 114-124: a refused write is caught and logged.\<close>

definition write_image_cache :: "host \<Rightarrow> int \<Rightarrow> localStorage \<Rightarrow> string \<Rightarrow> string \<Rightarrow> localStorage" where
  "write_image_cache refuses now ls cacheKey imageUrl =
     (case setItem refuses ls (image_key cacheKey)
             (JSON_stringify (JObj [(''url'', JStr imageUrl), (''timestamp'', JNum now)])) of
        None \<Rightarrow> ls
      | Some ls' \<Rightarrow> ls')"

subsection \<open>The wiki (lines 88-133)\<close>

text \<open>
  What \<^verbatim>\<open>fetch(apiUrl)\<close> and \<^verbatim>\<open>response.json()\<close> give: the promise of \<^verbatim>\<open>fetch\<close> rejects,
  the response is not ok, \<^verbatim>\<open>response.json()\<close> rejects, or there is a parsed body. The
  service is a function from the requested URL.
\<close>

datatype response = NetworkError | NotOk | BodyError | Body json

type_synonym remote = "string \<Rightarrow> response"

datatype lookup = Found string | NotFound | OutsideModel

definition patterns :: "string \<Rightarrow> string list" where
  "patterns itemName =
     [itemName @ ''_Build.png'', itemName @ ''.png'', itemName @ ''_Portrait.png'', itemName @ ''_Icon.png'']"

definition api_url :: "string \<Rightarrow> string" where
  "api_url filename =
     ''https://dontstarve.fandom.com/api.php?action=query&titles='' @
     encodeURIComponent (''File:'' @ filename) @
     ''&prop=imageinfo&iiprop=url&format=json&origin=*''"

text \<open>
  \<^verbatim>\<open>Object.values(pages)[0]\<close> for a truthy \<^verbatim>\<open>pages\<close>. The outer None: an object with
  two different keys, where the order of the values depends on which keys are array
  indices, is outside the model. A number or a boolean has no values; the first value of
  a string is a string.
\<close>

fun first_value :: "json \<Rightarrow> json option option" where
  "first_value (JObj []) = Some None"
| "first_value (JObj ((k, v) # ms)) =
     (if list_all (\<lambda>m. fst m = k) ms then Some (map_of (rev ((k, v) # ms)) k) else None)"
| "first_value (JArr []) = Some None"
| "first_value (JArr (x # xs)) = Some (Some x)"
| "first_value (JStr s) = Some (index0 (Some (JStr s)))"
| "first_value v = Some None"

text \<open>
  Lines 105-110 on the parsed body. \<^verbatim>\<open>data.query\<close> on null throws a TypeError, which the
  handler of the loop catches: the next candidate follows, as after \<open>NotFound\<close>. A url that
  is truthy and no string is outside the model.
\<close>

definition image_url :: "json \<Rightarrow> lookup" where
  "image_url data =
     (if data = JNull then NotFound
      else (case member ''pages'' (member ''query'' (Some data)) of
              None \<Rightarrow> NotFound
            | Some pages \<Rightarrow>
                if truthy pages then
                  (case first_value pages of
                     None \<Rightarrow> OutsideModel
                   | Some page \<Rightarrow>
                       (case member ''url'' (index0 (member ''imageinfo'' page)) of
                          None \<Rightarrow> NotFound
                        | Some (JStr url) \<Rightarrow> if url = [] then NotFound else Found url
                        | Some u \<Rightarrow> if truthy u then OutsideModel else NotFound))
                else NotFound))"

text \<open>One round of the loop, for one candidate.\<close>

definition attempt :: "remote \<Rightarrow> string \<Rightarrow> lookup" where
  "attempt wiki filename =
     (case wiki (api_url filename) of
        NetworkError \<Rightarrow> NotFound
      | NotOk \<Rightarrow> NotFound
      | BodyError \<Rightarrow> NotFound
      | Body data \<Rightarrow> image_url data)"

text \<open>The loop: the url of the first candidate that has one, and the URLs requested, in
  order. None: a response outside the model.\<close>

fun try_patterns :: "remote \<Rightarrow> string list \<Rightarrow> (string option \<times> string list) option" where
  "try_patterns wiki [] = Some (None, [])"
| "try_patterns wiki (filename # rest) =
     (case attempt wiki filename of
        Found imageUrl \<Rightarrow> Some (Some imageUrl, [api_url filename])
      | NotFound \<Rightarrow>
          map_option (\<lambda>(r, requests). (r, api_url filename # requests)) (try_patterns wiki rest)
      | OutsideModel \<Rightarrow> None)"

subsection \<open>The function\<close>

text \<open>
  The result of a call: the value returned (None is null), the URLs requested from the
  wiki, the memory cache and the store afterwards. \<open>now\<close> is the reading of \<^verbatim>\<open>Date.now()\<close>
  at line 72, \<open>now'\<close> the one at line 119. None: the call leaves the model.
\<close>

record fetched =
  returned :: "string option"
  requested :: "string list"
  memoryCache :: js_map
  stored :: localStorage

definition fetchDSTImage ::
  "lowering \<Rightarrow> host \<Rightarrow> remote \<Rightarrow> int \<Rightarrow> int \<Rightarrow> js_map \<Rightarrow> localStorage \<Rightarrow> string \<Rightarrow> fetched option" where
  "fetchDSTImage toLowerCase refuses wiki now now' cache ls itemName =
     (if itemName = [] \<or> trim itemName = []
      then Some \<lparr>returned = None, requested = [], memoryCache = cache, stored = ls\<rparr>
      else
        (let cacheKey = trim (toLowerCase itemName) in
         case ImageCacheManager_get cache cacheKey of
           Some cached \<Rightarrow> Some \<lparr>returned = Some cached, requested = [], memoryCache = cache, stored = ls\<rparr>
         | None \<Rightarrow>
             (case read_image_cache now ls cacheKey of
                Hit url \<Rightarrow>
                  Some \<lparr>returned = Some url, requested = [],
                        memoryCache = ImageCacheManager_set cache cacheKey url, stored = ls\<rparr>
              | Beyond \<Rightarrow> None
              | Miss ls1 \<Rightarrow>
                  (case try_patterns wiki (patterns itemName) of
                     None \<Rightarrow> None
                   | Some (None, requests) \<Rightarrow>
                       Some \<lparr>returned = None, requested = requests, memoryCache = cache, stored = ls1\<rparr>
                   | Some (Some imageUrl, requests) \<Rightarrow>
                       Some \<lparr>returned = Some imageUrl, requested = requests,
                             memoryCache = ImageCacheManager_set cache cacheKey imageUrl,
                             stored = write_image_cache refuses now' ls1 cacheKey imageUrl\<rparr>))))"

section \<open>Names used in the statements\<close>

text \<open>A user agent that refuses no write.\<close>

definition accepts_all :: host where
  "accepts_all = (\<lambda>ls k v. False)"

text \<open>A command whose own properties are the seven of the interface, each once.\<close>

definition seven_properties :: "Command \<Rightarrow> bool" where
  "seven_properties cmd = (distinct (cmd_keys cmd) \<and> set (cmd_keys cmd) = set default_keys)"


definition command_write :: "Command \<Rightarrow> string \<times> string" where
  "command_write cmd = (''dst:'' @ show_int (cmd_id cmd), JSON_stringify (Command_json cmd))"


text \<open>Two states of the tag manager: after \<^verbatim>\<open>addNewTag\<close> (a tag 4 with an empty name is in
  the list) with tag 1 being edited to a blank name; and tag 2 being edited to the name of
  tag 1 in another case.\<close>

definition blank_rename :: app where
  "blank_rename =
     \<lparr>local_storage = [], window_storage = True, mounted = True,
      tags = [\<lparr>tag_id = 1, tag_name = ''Admin'', tag_color = ''#ef4444''\<rparr>,
              \<lparr>tag_id = 4, tag_name = [], tag_color = ''#3b82f6''\<rparr>],
      commands = [], toasts = [], loading = False, editingTagId = Some 1,
      editTagName = ''  '', editTagColor = ''#ef4444'', set_calls = []\<rparr>"

definition conflict_rename :: app where
  "conflict_rename =
     \<lparr>local_storage = [], window_storage = True, mounted = True,
      tags = [\<lparr>tag_id = 1, tag_name = ''Admin'', tag_color = ''#ef4444''\<rparr>,
              \<lparr>tag_id = 2, tag_name = ''Spawning'', tag_color = ''#8b5cf6''\<rparr>],
      commands = [], toasts = [], loading = False, editingTagId = Some 2,
      editTagName = '' aDMIN '', editTagColor = ''#8b5cf6'', set_calls = []\<rparr>"



text \<open>
  A wiki that has no file \<^verbatim>\<open>Spider_Build.png\<close> and has \<^verbatim>\<open>Spider.png\<close>, and one that cannot be
  reached.
\<close>

definition spider_url :: string where
  "spider_url = ''https://static.wikia.nocookie.net/dont-starve-game/images/1/14/Spider.png''"

definition spider_wiki :: remote where
  "spider_wiki requestUrl =
     (if requestUrl = api_url ''Spider.png'' then
        Body (JObj [(''batchcomplete'', JStr []),
                    (''query'', JObj [(''pages'', JObj [(''7791'',
                       JObj [(''pageid'', JNum 7791), (''title'', JStr ''File:Spider.png''),
                             (''imageinfo'', JArr [JObj [(''url'', JStr spider_url)]])])])])])
      else Body (JObj [(''batchcomplete'', JStr []),
                       (''query'', JObj [(''pages'', JObj [(''-1'',
                          JObj [(''title'', JStr ''File:Missing.png''), (''missing'', JStr [])])])])]))"

definition wiki_down :: remote where
  "wiki_down requestUrl = NetworkError"

text \<open>The record \<^verbatim>\<open>window.storage.set\<close> is called with for a tag, and the entry of
  localStorage a call leaves.\<close>

definition tag_write :: "Tag \<Rightarrow> string \<times> string" where
  "tag_write tag = (''dsttag:'' @ show_int (tag_id tag), JSON_stringify (Tag_json tag))"

definition stored_as :: "string \<times> string \<Rightarrow> string \<times> string" where
  "stored_as w = (adapter_prefix @ fst w, snd w)"


text \<open>The component as it is mounted on a store: the initial values of \<^verbatim>\<open>useState\<close>
  (lines 237-256), \<^verbatim>\<open>window.storage\<close> defined, and no call made yet.\<close>

definition mount :: "localStorage \<Rightarrow> app" where
  "mount ls =
     \<lparr>local_storage = ls, window_storage = True, mounted = True, tags = [], commands = [],
      toasts = [], loading = True, editingTagId = None, editTagName = [],
      editTagColor = ''#3b82f6'', set_calls = []\<rparr>"
section \<open>Properties of the memory cache\<close>

lemma map_of_set_same:
  "map_of (ImageCacheManager_set m key value) key = Some value"
  by (simp add: ImageCacheManager_set_def update_conv')

lemma map_of_set_other:
  assumes "key' \<noteq> key" and "key \<in> fst ` set (ImageCacheManager_set m key' value')"
  shows "map_of (ImageCacheManager_set m key' value') key = map_of m key"
proof -
  let ?m = "if maxCacheSize \<le> length m
        then (case firstKey m of
                None \<Rightarrow> m
              | Some k \<Rightarrow> if k \<noteq> [] then AList.delete k m else m)
        else m"
  have in_m: "key \<in> fst ` set ?m"
    using assms by (simp add: ImageCacheManager_set_def dom_update)
  have "map_of ?m key = map_of m key"
  proof (cases "\<exists>k. maxCacheSize \<le> length m \<and> firstKey m = Some k \<and> k \<noteq> []")
    case True
    then obtain k where k: "maxCacheSize \<le> length m" "firstKey m = Some k" "k \<noteq> []"
      by blast
    then have eq: "?m = AList.delete k m" by simp
    with in_m have "key \<noteq> k"
      using delete_notin_dom [of k m] by auto
    with eq show ?thesis by simp
  next
    case False
    then have "?m = m" by (auto split: option.splits)
    then show ?thesis by simp
  qed
  with assms(1) show ?thesis
    by (simp add: ImageCacheManager_set_def update_conv')
qed

lemma keys_set_subset:
  "fst ` set (ImageCacheManager_set m key' value') \<subseteq> insert key' (fst ` set m)"
  using dom_delete_subset [of _ m]
  by (auto simp: ImageCacheManager_set_def dom_update split: option.splits if_splits)

lemma update_fresh: "key \<notin> fst ` set m \<Longrightarrow> AList.update key v m = m @ [(key, v)]"
  by (induction m) auto

lemma length_update_present: "key \<in> fst ` set m \<Longrightarrow> length (AList.update key v m) = length m"
  by (induction m) auto

lemma length_update_le: "length (AList.update k v m) \<le> Suc (length m)"
  by (induction m) auto

lemma calls_snoc: "calls m (cs @ [c]) = call (calls m cs) c"
  by (simp add: calls_def)

lemma calls_Cons: "calls m (c # cs) = calls (call m c) cs"
  by (simp add: calls_def)

lemma calls_Nil: "calls m [] = m"
  by (simp add: calls_def)

subsection \<open>An oldest key that is the empty string is never evicted\<close>





subsection \<open>With non-empty keys the bound holds and a full cache always evicts\<close>

lemma set_inv:
  assumes "cache_inv m" and "key \<noteq> []"
  shows "cache_inv (ImageCacheManager_set m key v)"
proof (cases "maxCacheSize \<le> length m")
  case False
  then have eq: "ImageCacheManager_set m key v = AList.update key v m"
    by (simp add: ImageCacheManager_set_def)
  show ?thesis
    using assms False length_update_le [of key v m]
    by (auto simp: eq cache_inv_def distinct_update dom_update)
next
  case True
  then obtain k w rest where m: "m = (k, w) # rest"
    by (cases m) (auto simp: maxCacheSize_def)
  with assms have k: "k \<noteq> []" "k \<notin> fst ` set rest" "distinct (map fst rest)" "[] \<notin> fst ` set rest"
    and len: "length rest < maxCacheSize"
    by (auto simp: cache_inv_def)
  have eq: "ImageCacheManager_set m key v = AList.update key v rest"
    using True k by (simp add: ImageCacheManager_set_def m firstKey_def)
  show ?thesis
    using assms k len length_update_le [of key v rest]
    by (auto simp: eq cache_inv_def distinct_update dom_update)
qed

lemma bounded_for_nonempty_keys:
  assumes "\<not> list_ex (sets_key []) cs"
  shows "cache_inv (calls [] cs)"
  using assms
proof (induction cs rule: rev_induct)
  case Nil
  show ?case by (simp add: calls_def cache_inv_def)
next
  case (snoc c cs)
  then have inv: "cache_inv (calls [] cs)" by simp
  show ?case
  proof (cases c)
    case (CallSet k v)
    with snoc.prems have "k \<noteq> []" by simp
    with inv show ?thesis
      by (simp add: calls_snoc CallSet set_inv)
  next
    case CallClear
    then show ?thesis
      by (simp add: calls_snoc ImageCacheManager_clear_def cache_inv_def)
  qed
qed

lemma size_bounded_for_nonempty_keys:
  "\<not> list_ex (sets_key []) cs \<Longrightarrow> length (calls [] cs) \<le> maxCacheSize"
  using bounded_for_nonempty_keys [of cs] by (simp add: cache_inv_def)

lemma full_cache_evicts_nonempty_oldest:
  assumes "cache_inv m" and "length m = maxCacheSize" and "firstKey m = Some k" and "key \<noteq> k"
  shows "k \<notin> fst ` set (ImageCacheManager_set m key v)"
proof -
  from assms obtain w rest where m: "m = (k, w) # rest"
    by (cases m) (auto simp: firstKey_def)
  with assms have k: "k \<noteq> []" "k \<notin> fst ` set rest"
    by (auto simp: cache_inv_def)
  have "ImageCacheManager_set m key v = AList.update key v rest"
    using assms(2) k by (simp add: ImageCacheManager_set_def m firstKey_def)
  with k assms(4) show ?thesis
    by (simp add: dom_update)
qed

lemma update_in_full_cache_shrinks:
  assumes "cache_inv m" and "length m = maxCacheSize" and "firstKey m = Some k" and "key \<noteq> k"
    and "key \<in> fst ` set m"
  shows "Suc (length (ImageCacheManager_set m key v)) = maxCacheSize"
proof -
  from assms obtain w rest where m: "m = (k, w) # rest"
    by (cases m) (auto simp: firstKey_def)
  with assms have k: "k \<noteq> []" "k \<notin> fst ` set rest" and key: "key \<in> fst ` set rest"
    by (auto simp: cache_inv_def)
  have "ImageCacheManager_set m key v = AList.update key v rest"
    using assms(2) k by (simp add: ImageCacheManager_set_def m firstKey_def)
  with key assms(2) show ?thesis
    by (simp add: length_update_present m)
qed

subsection \<open>What a later read returns\<close>

lemma value_kept:
  assumes "\<not> list_ex (sets_key key) later" and "map_of m key = Some value"
    and "key \<in> fst ` set (calls m later)"
  shows "map_of (calls m later) key = Some value"
  using assms
proof (induction later rule: rev_induct)
  case Nil
  then show ?case by (simp add: calls_def)
next
  case (snoc c cs)
  show ?case
  proof (cases c)
    case (CallSet k v)
    with snoc.prems(1) have neq: "k \<noteq> key" by simp
    from snoc.prems(3) have here: "key \<in> fst ` set (ImageCacheManager_set (calls m cs) k v)"
      by (simp add: calls_snoc CallSet)
    with neq have before: "key \<in> fst ` set (calls m cs)"
      using keys_set_subset [of "calls m cs" k v] by auto
    have "map_of (calls m cs) key = Some value"
      using snoc.IH snoc.prems(1,2) before by simp
    with map_of_set_other [OF neq here] show ?thesis
      by (simp add: calls_snoc CallSet)
  next
    case CallClear
    with snoc.prems(3) show ?thesis
      by (simp add: calls_snoc ImageCacheManager_clear_def)
  qed
qed

text \<open>
  C9, as the claim states it: after \<^verbatim>\<open>set(key, value)\<close>, \<^verbatim>\<open>get(key)\<close> returns the value,
  for every string value. It fails at the empty string, which \<^verbatim>\<open>get\<close> reads as null.
\<close>

theorem get_after_set_empty_value:
  "ImageCacheManager_get (ImageCacheManager_set [] ''k'' []) ''k'' \<noteq> Some []"
  by (simp add: ImageCacheManager_get_def ImageCacheManager_set_def maxCacheSize_def)

text \<open>
  C9, amended: for every key and every non-empty value stored by \<^verbatim>\<open>set(key, value)\<close>,
  \<^verbatim>\<open>get(key)\<close> returns that value right after the call, and after any later calls of
  \<^verbatim>\<open>set\<close> on other keys and of \<^verbatim>\<open>clear\<close> as long as the key is still in the cache, that
  is, until an eviction or a \<^verbatim>\<open>clear()\<close> has removed it.
\<close>

theorem get_after_set:
  assumes "value \<noteq> []" and "\<not> list_ex (sets_key key) later"
  shows "ImageCacheManager_get (ImageCacheManager_set m key value) key = Some value
     \<and> (key \<in> fst ` set (calls (ImageCacheManager_set m key value) later)
          \<longrightarrow> ImageCacheManager_get (calls (ImageCacheManager_set m key value) later) key = Some value)"
  using assms value_kept [OF assms(2) map_of_set_same [of m key "value"]]
  by (simp add: ImageCacheManager_get_def map_of_set_same)

theorem get_after_set_witness:
  "''u'' \<noteq> [] \<and> \<not> list_ex (sets_key ''a'') [CallSet ''b'' ''w'', CallSet ''c'' []]
   \<and> ImageCacheManager_get (ImageCacheManager_set [(''b'', ''x'')] ''a'' ''u'') ''a'' = Some ''u''
   \<and> ''a'' \<in> fst ` set (calls (ImageCacheManager_set [(''b'', ''x'')] ''a'' ''u'') [CallSet ''b'' ''w'', CallSet ''c'' []])
   \<and> ImageCacheManager_get
        (calls (ImageCacheManager_set [(''b'', ''x'')] ''a'' ''u'') [CallSet ''b'' ''w'', CallSet ''c'' []]) ''a''
      = Some ''u''"
proof -
  have present: "''a'' \<in> fst ` set (calls (ImageCacheManager_set [(''b'', ''x'')] ''a'' ''u'')
      [CallSet ''b'' ''w'', CallSet ''c'' []])"
    by (simp add: calls_def ImageCacheManager_set_def maxCacheSize_def)
  show ?thesis
    using get_after_set [of "''u''" "''a''" "[CallSet ''b'' ''w'', CallSet ''c'' []]" "[(''b'', ''x'')]"]
      present
    by simp
qed

section \<open>Properties of the StorageAdapter\<close>

text \<open>
  C1. For every key and every value of more than 4,800,000 bytes, \<^verbatim>\<open>set(key, value)\<close>
  returns false and leaves localStorage as it was, whatever the user agent would have
  done with the write; so \<^verbatim>\<open>get\<close> of that key (and of every other) reads what it read
  before. The result is a boolean: no exception leaves \<^verbatim>\<open>set\<close>.
\<close>

theorem set_over_quota:
  assumes "4800000 < length value"
  shows "StorageAdapter_set refuses ls key value = (False, ls)
     \<and> StorageAdapter_get (snd (StorageAdapter_set refuses ls key value)) key = StorageAdapter_get ls key"
  using assms by (auto simp: StorageAdapter_set_def)

theorem set_over_quota_witness:
  "4800000 < length (replicate 4800001 CHR ''x'')
   \<and> StorageAdapter_set accepts_all [(''dst_app_dst:1'', ''old'')] ''dst:1'' (replicate 4800001 CHR ''x'')
       = (False, [(''dst_app_dst:1'', ''old'')])
   \<and> StorageAdapter_get
        (snd (StorageAdapter_set accepts_all [(''dst_app_dst:1'', ''old'')] ''dst:1''
           (replicate 4800001 CHR ''x''))) ''dst:1'' = Some ''old''"
  using set_over_quota [of "replicate 4800001 CHR ''x''" accepts_all
      "[(''dst_app_dst:1'', ''old'')]" "''dst:1''"]
  by (simp add: StorageAdapter_get_def getItem_def adapter_prefix_def)

section \<open>Round trips through JSON\<close>

lemma less_10_cases:
  assumes "(d::nat) < 10"
  obtains "d = 0" | "d = 1" | "d = 2" | "d = 3" | "d = 4" | "d = 5" | "d = 6" | "d = 7" | "d = 8" | "d = 9"
  using assms by atomize_elim arith

lemma code_digit_char: "d < 10 \<Longrightarrow> code (digit_char d) = 48 + d"
  by (erule less_10_cases) (simp_all add: digit_char_def code_def)

lemma is_digit_digit_char: "d < 10 \<Longrightarrow> is_digit (digit_char d)"
  by (simp add: is_digit_def code_digit_char)

lemma show_nat_digits: "c \<in> set (show_nat n) \<Longrightarrow> is_digit c"
proof (induction n arbitrary: c rule: show_nat.induct)
  case (1 n)
  then show ?case
    by (subst (asm) (2) show_nat.simps) (auto simp: is_digit_digit_char split: if_splits)
qed

lemma show_nat_not_Nil: "show_nat n \<noteq> []"
  by (subst show_nat.simps) simp

lemma digits_value_snoc: "digits_value (ds @ [c]) = 10 * digits_value ds + (code c - 48)"
  by (simp add: digits_value_def)

lemma digits_value_show_nat: "digits_value (show_nat n) = n"
proof (induction n rule: show_nat.induct)
  case (1 n)
  show ?case
  proof (cases "n < 10")
    case True
    then show ?thesis
      by (subst show_nat.simps) (simp add: digits_value_def code_digit_char)
  next
    case False
    with 1 have "digits_value (show_nat (n div 10)) = n div 10" by simp
    with False show ?thesis
      by (subst show_nat.simps) (simp add: digits_value_snoc code_digit_char)
  qed
qed

lemma hd_show_nat: "0 < n \<Longrightarrow> hd (show_nat n) \<noteq> CHR ''0''"
proof (induction n rule: show_nat.induct)
  case (1 n)
  show ?case
  proof (cases "n < 10")
    case True
    with 1(2) have "code (digit_char n) \<noteq> code (CHR ''0'')"
      by (simp add: code_digit_char) (simp add: code_def)
    then have "digit_char n \<noteq> CHR ''0''" by auto
    with True show ?thesis
      by (subst show_nat.simps) simp
  next
    case False
    then have "0 < n div 10" by simp
    with 1(1) False have "hd (show_nat (n div 10)) \<noteq> CHR ''0''" by simp
    with False show ?thesis
      by (subst show_nat.simps) (simp add: show_nat_not_Nil)
  qed
qed

lemma show_nat_0: "show_nat 0 = ''0''"
  by (subst show_nat.simps) (simp add: digit_char_def)

lemma takeWhile_show_nat:
  assumes "rest = [] \<or> \<not> is_digit (hd rest)"
  shows "takeWhile is_digit (show_nat n @ rest) = show_nat n"
proof -
  have "takeWhile is_digit rest = []"
    using assms by (cases rest) auto
  then show ?thesis
    by (simp add: takeWhile_append2 show_nat_digits)
qed

lemma parse_number_show_nat:
  assumes "rest = [] \<or> \<not> is_digit (hd rest) \<and> hd rest \<notin> {CHR ''.'', CHR ''e'', CHR ''E''}"
    and "n \<le> max_safe_integer"
  shows "parse_number (show_nat n @ rest) = Parsed (JNum (int n), rest)"
proof (cases "n = 0")
  case True
  with assms show ?thesis
    by (cases rest) (auto simp: show_nat_0 parse_number_def is_digit_def code_def digits_value_def Let_def)
next
  case False
  obtain d ds where ds: "show_nat n = d # ds"
    using show_nat_not_Nil [of n] by (cases "show_nat n") auto
  have d: "is_digit d" "d \<noteq> CHR ''0''" "d \<noteq> CHR ''-''"
    using show_nat_digits [of d n] hd_show_nat [of n] False ds
    by (auto simp: is_digit_def code_def)
  have tw: "takeWhile is_digit (d # ds @ rest) = d # ds"
    using takeWhile_show_nat [of rest n] assms(1) unfolding ds append_Cons by blast
  have rest: "(case rest of [] \<Rightarrow> False | c # x \<Rightarrow> c = CHR ''.'' \<or> c = CHR ''e'' \<or> c = CHR ''E'') = False"
    using assms(1) by (cases rest) auto
  have val: "digits_value (d # ds) = n"
    using digits_value_show_nat [of n] ds by simp
  show ?thesis
    using d assms(2) unfolding parse_number_def ds
    by (simp add: Let_def tw rest val del: takeWhile.simps)
qed

lemma parse_number_show_int:
  assumes "rest = [] \<or> \<not> is_digit (hd rest) \<and> hd rest \<notin> {CHR ''.'', CHR ''e'', CHR ''E''}"
    and "\<bar>t\<bar> \<le> int max_safe_integer"
  shows "parse_number (show_int t @ rest) = Parsed (JNum t, rest)"
proof (cases "t < 0")
  case False
  with assms parse_number_show_nat [of rest "nat t"] show ?thesis
    by (simp add: show_int_def)
next
  case True
  obtain d ds where ds: "show_nat (nat (- t)) = d # ds"
    using show_nat_not_Nil [of "nat (- t)"] by (cases "show_nat (nat (- t))") auto
  have pos: "0 < nat (- t)" using True by simp
  have d: "is_digit d" "d \<noteq> CHR ''0''"
    using show_nat_digits [of d "nat (- t)"] hd_show_nat [OF pos] ds by auto
  have tw: "takeWhile is_digit (d # ds @ rest) = d # ds"
    using takeWhile_show_nat [of rest "nat (- t)"] assms(1) unfolding ds append_Cons by blast
  have rest: "(case rest of [] \<Rightarrow> False | c # x \<Rightarrow> c = CHR ''.'' \<or> c = CHR ''e'' \<or> c = CHR ''E'') = False"
    using assms(1) by (cases rest) auto
  have val: "digits_value (d # ds) = nat (- t)"
    using digits_value_show_nat [of "nat (- t)"] ds by simp
  have bound: "nat (- t) \<le> max_safe_integer"
    using assms(2) True by simp
  show ?thesis
    using d True bound unfolding parse_number_def show_int_def ds
    by (simp add: Let_def tw rest val del: takeWhile.simps)
qed

lemma less_16_cases:
  assumes "(d::nat) < 16"
  obtains "d = 0" | "d = 1" | "d = 2" | "d = 3" | "d = 4" | "d = 5" | "d = 6" | "d = 7" | "d = 8" | "d = 9"
   | "d = 10" | "d = 11" | "d = 12" | "d = 13" | "d = 14" | "d = 15"
  using assms by atomize_elim arith

lemma hex_value_hex_lower: "d < 16 \<Longrightarrow> hex_value (hex_lower d) = Some d"
  by (erule less_16_cases) (simp_all add: hex_value_def hex_lower_def is_digit_def code_def)

lemma code_inj: "code c = code d \<Longrightarrow> c = d"
  by (simp add: code_def)

lemma parse_chars_escape: "parse_chars (escape_char c @ s) = push_char c (parse_chars s)"
proof -
  consider "c = CHR 0x22" | "c = CHR 0x5C" | "code c = 8" | "code c = 12" | "code c = 10" | "code c = 13"
    | "code c = 9" | "code c < 32" "code c \<notin> {8, 12, 10, 13, 9}" | "32 \<le> code c" "c \<noteq> CHR 0x22" "c \<noteq> CHR 0x5C"
    by fastforce
  then show ?thesis
  proof cases
    case 1
    then show ?thesis by (simp add: escape_char_def unescape_def)
  next
    case 2
    then show ?thesis by (simp add: escape_char_def unescape_def)
  next
    case 3
    then have "c = CHR 0x08" by (intro code_inj) (simp add: code_def)
    then show ?thesis by (simp add: escape_char_def unescape_def code_def)
  next
    case 4
    then have "c = CHR 0x0C" by (intro code_inj) (simp add: code_def)
    then show ?thesis by (simp add: escape_char_def unescape_def code_def)
  next
    case 5
    then have "c = CHR 0x0A" by (intro code_inj) (simp add: code_def)
    then show ?thesis by (simp add: escape_char_def unescape_def code_def)
  next
    case 6
    then have "c = CHR 0x0D" by (intro code_inj) (simp add: code_def)
    then show ?thesis by (simp add: escape_char_def unescape_def code_def)
  next
    case 7
    then have "c = CHR 0x09" by (intro code_inj) (simp add: code_def)
    then show ?thesis by (simp add: escape_char_def unescape_def code_def)
  next
    case 8
    then have ne: "c \<noteq> CHR 0x22" "c \<noteq> CHR 0x5C"
      by (auto simp: code_def)
    have esc: "escape_char c =
        [CHR 0x5C, CHR ''u'', CHR ''0'', CHR ''0'', hex_lower (code c div 16), hex_lower (code c mod 16)]"
      using 8 ne by (simp add: escape_char_def)
    have "code c div 16 < 16" "code c mod 16 < 16" using 8 by simp_all
    then have hx: "hex4 CHR ''0'' CHR ''0'' (hex_lower (code c div 16)) (hex_lower (code c mod 16)) = Some (code c)"
      by (simp add: hex4_def hex_value_hex_lower) (simp add: hex_value_def is_digit_def code_def)
    have "char_of (code c) = c" by (simp add: code_def)
    with 8 hx show ?thesis
      by (simp add: esc)
  next
    case 9
    then show ?thesis by (simp add: escape_char_def)
  qed
qed

lemma parse_chars_escaped:
  "parse_chars (concat (map escape_char u) @ CHR 0x22 # rest) = Parsed (u, rest)"
  by (induction u) (simp_all add: parse_chars_escape push_char_def and_then_def)

lemma parse_quote: "parse_chars (tl (quote u) @ rest) = Parsed (u, rest)"
  by (simp add: quote_def parse_chars_escaped)

lemma show_int_Cons: "\<exists>c s. show_int t = c # s \<and> (c = CHR ''-'' \<or> is_digit c)"
proof (cases "t < 0")
  case True
  then show ?thesis by (simp add: show_int_def)
next
  case False
  obtain d ds where "show_nat (nat t) = d # ds"
    using show_nat_not_Nil [of "nat t"] by (cases "show_nat (nat t)") auto
  with False show_nat_digits [of d "nat t"] show ?thesis
    by (simp add: show_int_def)
qed

lemma parse_value_number:
  assumes "c = CHR ''-'' \<or> is_digit c"
  shows "parse_value (Suc n) (c # s) = parse_number (c # s)"
  using assms by (auto simp: skip_ws_def json_ws_def is_digit_def code_def)

lemma parse_value_show_int:
  assumes "rest = [] \<or> \<not> is_digit (hd rest) \<and> hd rest \<notin> {CHR ''.'', CHR ''e'', CHR ''E''}"
    and "\<bar>t\<bar> \<le> int max_safe_integer"
  shows "parse_value (Suc n) (show_int t @ rest) = Parsed (JNum t, rest)"
proof -
  obtain c s where cs: "show_int t = c # s" "c = CHR ''-'' \<or> is_digit c"
    using show_int_Cons by blast
  have "parse_value (Suc n) (show_int t @ rest) = parse_number (show_int t @ rest)"
    unfolding cs(1) append_Cons using cs(2) by (rule parse_value_number)
  with assms show ?thesis
    by (simp add: parse_number_show_int)
qed

lemma parse_value_quote:
  "parse_value (Suc n) (quote u @ rest) = Parsed (JStr u, rest)"
  by (simp add: quote_def skip_ws_def json_ws_def code_def parse_chars_escaped and_then_def)

lemma parse_entry:
  assumes "\<bar>t\<bar> \<le> int max_safe_integer"
  shows "JSON_parse (JSON_stringify (JObj [(''url'', JStr u), (''timestamp'', JNum t)]))
       = Parsed (JObj [(''url'', JStr u), (''timestamp'', JNum t)])"
proof -
  have num: "parse_value (Suc n) (show_int t @ ''}'') = Parsed (JNum t, ''}'')" for n
    using assms by (rule parse_value_show_int [rotated]) (simp add: is_digit_def code_def)
  have str: "parse_value (Suc n) (quote u @ rest) = Parsed (JStr u, rest)" for n rest
    by (rule parse_value_quote)
  have key1: "parse_chars (tl (quote ''url'') @ rest) = Parsed (''url'', rest)" for rest
    by (rule parse_quote)
  have key2: "parse_chars (tl (quote ''timestamp'') @ rest) = Parsed (''timestamp'', rest)" for rest
    by (rule parse_quote)
  have q: "quote k = CHR 0x22 # tl (quote k)" for k
    by (simp add: quote_def)
  have mem2: "parse_members (Suc (Suc n)) (quote ''timestamp'' @ CHR '':'' # show_int t @ ''}'')
      = Parsed ([(''timestamp'', JNum t)], [])" for n
    by (subst q) (simp add: skip_ws_def json_ws_def code_def key2 and_then_def num
        del: parse_value.simps)
  have mem1: "parse_members (Suc (Suc (Suc n)))
       (CHR 0x22 # tl (quote ''url'') @ CHR '':'' # quote u @ CHR '','' # quote ''timestamp'' @ CHR '':'' # show_int t @ ''}'')
      = Parsed ([(''url'', JStr u), (''timestamp'', JNum t)], [])" for n
    apply (subst parse_members.simps(2))
    apply (simp add: skip_ws_def json_ws_def code_def key1 and_then_def str mem2
        del: parse_value.simps parse_members.simps)
    done
  have q': "quote ''url'' = CHR 0x22 # tl (quote ''url'')"
    by (rule q)
  have "parse_value (Suc (Suc (Suc (Suc n))))
       (JSON_stringify (JObj [(''url'', JStr u), (''timestamp'', JNum t)]))
      = Parsed (JObj [(''url'', JStr u), (''timestamp'', JNum t)], [])" for n
    apply (simp del: parse_value.simps parse_members.simps)
    apply (subst parse_value.simps(2))
    apply (subst q')
    apply (simp add: skip_ws_def json_ws_def code_def and_then_def
        del: parse_value.simps parse_members.simps)
    apply (simp only: mem1)
    apply simp
    done
  note pv = this
  have "\<exists>k. length (JSON_stringify (JObj [(''url'', JStr u), (''timestamp'', JNum t)])) = Suc (Suc (Suc k))"
    by (simp add: quote_def)
  then obtain k where "length (JSON_stringify (JObj [(''url'', JStr u), (''timestamp'', JNum t)])) = Suc (Suc (Suc k))"
    by blast
  then show ?thesis
    by (simp add: JSON_parse_def and_then_def skip_ws_def pv del: parse_value.simps JSON_stringify.simps)
qed


subsection \<open>Stored tags and commands parse back\<close>

lemma fuel_Suc: "Suc k \<le> n \<Longrightarrow> \<exists>m. n = Suc m \<and> k \<le> m"
  by (cases n) auto

lemma quote_Cons: "quote u = CHR 0x22 # tl (quote u)"
  by (simp add: quote_def)

lemma value_string:
  assumes "1 \<le> n"
  shows "parse_value n (quote u @ rest) = Parsed (JStr u, rest)"
proof -
  from assms obtain m where "n = Suc m" by (cases n) auto
  then show ?thesis by (simp only: parse_value_quote)
qed

lemma value_int:
  assumes "1 \<le> n"
    and "rest = [] \<or> \<not> is_digit (hd rest) \<and> hd rest \<notin> {CHR ''.'', CHR ''e'', CHR ''E''}"
    and "\<bar>t\<bar> \<le> int max_safe_integer"
  shows "parse_value n (show_int t @ rest) = Parsed (JNum t, rest)"
proof -
  from assms(1) obtain m where "n = Suc m" by (cases n) auto
  then show ?thesis using assms(2,3) by (simp only: parse_value_show_int)
qed

lemma value_literal:
  assumes "1 \<le> n"
  shows "parse_value n (''null'' @ rest) = Parsed (JNull, rest)"
    and "parse_value n (''true'' @ rest) = Parsed (JBool True, rest)"
    and "parse_value n (''false'' @ rest) = Parsed (JBool False, rest)"
proof -
  from assms obtain m where n: "n = Suc m" by (cases n) auto
  show "parse_value n (''null'' @ rest) = Parsed (JNull, rest)"
    and "parse_value n (''true'' @ rest) = Parsed (JBool True, rest)"
    and "parse_value n (''false'' @ rest) = Parsed (JBool False, rest)"
    unfolding n by (simp_all add: skip_ws_def json_ws_def code_def is_digit_def)
qed

lemma elements_strings:
  assumes "ts \<noteq> []" and "Suc (length ts) \<le> n"
  shows "parse_elements n (join (map quote ts) @ CHR '']'' # rest) = Parsed (map JStr ts, rest)"
  using assms
proof (induction ts arbitrary: n)
  case Nil
  then show ?case by simp
next
  case (Cons x ts)
  from Cons.prems(2) obtain m where n: "n = Suc m" and m: "Suc (length ts) \<le> m"
    by (cases n) auto
  then have one: "1 \<le> m" by simp
  show ?case
  proof (cases ts)
    case Nil
    then show ?thesis
      unfolding n
      by (simp add: value_string [OF one] and_then_def skip_ws_def json_ws_def code_def
          del: parse_value.simps)
  next
    case (Cons y zs)
    then have "parse_elements m (join (map quote ts) @ CHR '']'' # rest) = Parsed (map JStr ts, rest)"
      using Cons.IH [of m] m by simp
    then show ?thesis
      unfolding n Cons
      apply (subst parse_elements.simps(2))
      apply (simp add: value_string [OF one] and_then_def skip_ws_def json_ws_def code_def
          del: parse_value.simps parse_elements.simps)
      done
  qed
qed

lemma value_strings:
  assumes "length ts + 2 \<le> n"
  shows "parse_value n (JSON_stringify (JArr (map JStr ts)) @ rest) = Parsed (JArr (map JStr ts), rest)"
proof -
  from assms obtain m where n: "n = Suc m" and m: "Suc (length ts) \<le> m"
    by (cases n) auto
  show ?thesis
  proof (cases ts)
    case Nil
    then show ?thesis
      unfolding n by (simp add: skip_ws_def json_ws_def code_def)
  next
    case (Cons x xs)
    have el: "parse_elements m (join (map quote ts) @ CHR '']'' # rest) = Parsed (map JStr ts, rest)"
      using Cons m by (intro elements_strings) auto
    have "\<exists>t. join (map quote ts) = CHR 0x22 # t"
      unfolding Cons by (cases xs) (simp_all add: quote_def)
    then obtain t where t: "join (map quote ts) = CHR 0x22 # t" by blast
    have "parse_value (Suc m) (CHR ''['' # (CHR 0x22 # t) @ CHR '']'' # rest)
        = and_then (parse_elements m ((CHR 0x22 # t) @ CHR '']'' # rest)) (\<lambda>(xs, r). Parsed (JArr xs, r))"
      by (simp add: skip_ws_def json_ws_def code_def del: parse_elements.simps)
    then show ?thesis
      unfolding n using el by (simp add: t [symmetric] o_def and_then_def del: parse_value.simps)
  qed
qed

lemma member_more:
  assumes "parse_value n (vtext @ CHR '','' # tail) = Parsed (v, CHR '','' # tail)"
    and "parse_members n tail = Parsed (ms, rest)"
  shows "parse_members (Suc n) (quote k @ CHR '':'' # vtext @ CHR '','' # tail) = Parsed ((k, v) # ms, rest)"
  apply (subst quote_Cons)
  apply (subst parse_members.simps(2))
  apply (simp add: skip_ws_def json_ws_def code_def parse_quote and_then_def assms
      del: parse_value.simps parse_members.simps)
  done

lemma member_last:
  assumes "parse_value n (vtext @ CHR ''}'' # rest) = Parsed (v, CHR ''}'' # rest)"
  shows "parse_members (Suc n) (quote k @ CHR '':'' # vtext @ CHR ''}'' # rest) = Parsed ([(k, v)], rest)"
  apply (subst quote_Cons)
  apply (subst parse_members.simps(2))
  apply (simp add: skip_ws_def json_ws_def code_def parse_quote and_then_def assms
      del: parse_value.simps parse_members.simps)
  done

lemma object_members:
  assumes "parse_members n (quote k @ tail) = Parsed (ms, rest)"
  shows "parse_value (Suc n) (CHR ''{'' # quote k @ tail) = Parsed (JObj ms, rest)"
proof -
  have "parse_value (Suc n) (CHR ''{'' # CHR 0x22 # tl (quote k) @ tail)
      = and_then (parse_members n (CHR 0x22 # tl (quote k) @ tail)) (\<lambda>(ms, r). Parsed (JObj ms, r))"
    by (simp add: skip_ws_def json_ws_def code_def del: parse_members.simps)
  moreover have "CHR 0x22 # tl (quote k) @ tail = quote k @ tail"
    by (simp add: quote_def)
  ultimately show ?thesis
    using assms by (simp add: and_then_def del: parse_value.simps parse_members.simps)
qed

lemma top_level:
  assumes "parse_value (Suc (length s)) s = Parsed (v, [])"
  shows "JSON_parse s = Parsed v"
  using assms by (simp add: JSON_parse_def and_then_def skip_ws_def)

lemma not_digit [simp]:
  "\<not> is_digit CHR '',''" "\<not> is_digit CHR ''}''"
  by (simp_all add: is_digit_def code_def)

lemma parse_Tag_value:
  assumes "5 \<le> n" and "\<bar>tag_id t\<bar> \<le> int max_safe_integer"
  shows "parse_value n (JSON_stringify (Tag_json t)) = Parsed (Tag_json t, [])"
proof -
  from assms(1) have "n = Suc (Suc (Suc (Suc (Suc (n - 5)))))" by simp
  then obtain m where n: "n = Suc (Suc (Suc (Suc (Suc m))))" ..
  have v1: "parse_value (Suc (Suc (Suc m))) (show_int (tag_id t) @ CHR '','' # tail)
      = Parsed (JNum (tag_id t), CHR '','' # tail)" for tail
    using assms(2) by (intro value_int) simp_all
  have v2: "parse_value (Suc (Suc m)) (quote (tag_name t) @ rest) = Parsed (JStr (tag_name t), rest)" for rest
    by (intro value_string) simp
  have v3: "parse_value (Suc m) (quote (tag_color t) @ rest) = Parsed (JStr (tag_color t), rest)" for rest
    by (intro value_string) simp
  have "parse_members (Suc (Suc (Suc (Suc m))))
      (quote ''id'' @ CHR '':'' # show_int (tag_id t) @ CHR '','' #
       quote ''name'' @ CHR '':'' # quote (tag_name t) @ CHR '','' #
       quote ''color'' @ CHR '':'' # quote (tag_color t) @ CHR ''}'' # [])
      = Parsed ([(''id'', JNum (tag_id t)), (''name'', JStr (tag_name t)), (''color'', JStr (tag_color t))], [])"
    by (intro member_more member_last v1 v2 v3)
  then have "parse_value (Suc (Suc (Suc (Suc (Suc m)))))
      (CHR ''{'' # quote ''id'' @ CHR '':'' # show_int (tag_id t) @ CHR '','' #
       quote ''name'' @ CHR '':'' # quote (tag_name t) @ CHR '','' #
       quote ''color'' @ CHR '':'' # quote (tag_color t) @ CHR ''}'' # [])
      = Parsed (JObj [(''id'', JNum (tag_id t)), (''name'', JStr (tag_name t)), (''color'', JStr (tag_color t))], [])"
    by (rule object_members)
  then show ?thesis
    unfolding n by (simp add: Tag_json_def del: parse_value.simps)
qed

lemma length_quote: "2 \<le> length (quote u)"
  by (simp add: quote_def)

lemma parse_Tag:
  assumes "\<bar>tag_id t\<bar> \<le> int max_safe_integer"
  shows "JSON_parse (JSON_stringify (Tag_json t)) = Parsed (Tag_json t)"
proof -
  have "5 \<le> Suc (length (JSON_stringify (Tag_json t)))"
    by (simp add: Tag_json_def quote_def)
  then show ?thesis
    using assms by (intro top_level parse_Tag_value)
qed

lemma as_Tag_json: "as_Tag (Tag_json t) = Some t"
  by (simp add: as_Tag_def Tag_json_def)

lemma value_bool:
  assumes "1 \<le> n"
  shows "parse_value n (JSON_stringify (JBool b) @ rest) = Parsed (JBool b, rest)"
  using value_literal(2,3) [OF assms, of rest] by (cases b) simp_all

lemma as_strings_JStr: "as_strings (map JStr ts) = Some ts"
  by (induction ts) simp_all

text \<open>The members of an object parse back when each value does, whatever follows it.\<close>

lemma members_back:
  assumes "ms \<noteq> []"
    and "\<And>k v n c tail. (k, v) \<in> set ms \<Longrightarrow> f \<le> n \<Longrightarrow> c = CHR '','' \<or> c = CHR ''}'' \<Longrightarrow>
           parse_value n (JSON_stringify v @ c # tail) = Parsed (v, c # tail)"
    and "length ms + f \<le> n"
  shows "parse_members n
           (join (map (\<lambda>m. quote (fst m) @ CHR '':'' # JSON_stringify (snd m)) ms) @ CHR ''}'' # rest)
         = Parsed (ms, rest)"
  using assms
proof (induction ms arbitrary: n)
  case Nil
  then show ?case by simp
next
  case (Cons m ms)
  note vals = Cons.prems(2) and IH = Cons.IH
  obtain k v where m: "m = (k, v)" by (cases m)
  from Cons.prems(3) obtain n' where n: "n = Suc n'" and n': "length ms + f \<le> n'"
    by (cases n) auto
  then have fn: "f \<le> n'" by simp
  show ?case
  proof (cases ms)
    case Nil
    have "parse_value n' (JSON_stringify v @ CHR ''}'' # rest) = Parsed (v, CHR ''}'' # rest)"
      using vals [of k v n' "CHR ''}''" rest] fn m by simp
    from member_last [OF this, of k] show ?thesis
      unfolding n m Nil by (simp del: parse_members.simps parse_value.simps)
  next
    case (Cons m' ms')
    let ?tail = "join (map (\<lambda>m. quote (fst m) @ CHR '':'' # JSON_stringify (snd m)) ms) @ CHR ''}'' # rest"
    have later: "parse_value j (JSON_stringify w @ c # tail) = Parsed (w, c # tail)"
      if "(l, w) \<in> set ms" "f \<le> j" "c = CHR '','' \<or> c = CHR ''}''" for l w j c tail
      using vals [of l w j c tail] that by simp
    have "ms \<noteq> []" using Cons by simp
    then have rest: "parse_members n' ?tail = Parsed (ms, rest)"
      using later n' by (rule IH)
    have "parse_value n' (JSON_stringify v @ CHR '','' # ?tail) = Parsed (v, CHR '','' # ?tail)"
      using vals [of k v n' "CHR '',''" ?tail] fn m by simp
    from member_more [OF this rest, of k] show ?thesis
      unfolding n m Cons by (simp del: parse_members.simps parse_value.simps)
  qed
qed

lemma object_back:
  assumes "ms \<noteq> []"
    and "parse_members n
           (join (map (\<lambda>m. quote (fst m) @ CHR '':'' # JSON_stringify (snd m)) ms) @ CHR ''}'' # [])
         = Parsed (ms, [])"
  shows "parse_value (Suc n) (JSON_stringify (JObj ms)) = Parsed (JObj ms, [])"
proof -
  from assms(1) obtain k v ms' where ms: "ms = (k, v) # ms'"
    by (cases ms) auto
  have "\<exists>t. join (map (\<lambda>m. quote (fst m) @ CHR '':'' # JSON_stringify (snd m)) ms) = quote k @ t"
    unfolding ms by (cases ms') simp_all
  then obtain t where t: "join (map (\<lambda>m. quote (fst m) @ CHR '':'' # JSON_stringify (snd m)) ms) = quote k @ t"
    by blast
  have "parse_members n (quote k @ t @ CHR ''}'' # []) = Parsed (ms, [])"
    using assms(2) unfolding t by simp
  then have "parse_value (Suc n) (CHR ''{'' # quote k @ t @ CHR ''}'' # []) = Parsed (JObj ms, [])"
    by (rule object_members)
  then show ?thesis
    using t by (simp del: parse_value.simps)
qed

lemma length_join_mem: "x \<in> set xs \<Longrightarrow> length x \<le> length (join xs)"
  by (induction xs rule: join.induct) auto

lemma length_join_quote: "length ts \<le> length (join (map quote ts))"
proof (induction ts rule: join.induct)
  case (2 x)
  then show ?case using length_quote [of x] by simp
next
  case (3 x y zs)
  then show ?case using length_quote [of x] by simp
qed simp

subsection \<open>The object of a command\<close>

lemma map_filter_mem:
  "(k, v) \<in> set (List.map_filter (\<lambda>k. map_option (Pair k) (map_of M k)) ks) \<Longrightarrow> map_of M k = Some v \<and> k \<in> set ks"
  by (auto simp: List.map_filter_def)

lemma map_filter_map_of:
  "map_of (List.map_filter (\<lambda>k. map_option (Pair k) (map_of M k)) ks) k
     = (if k \<in> set ks then map_of M k else None)"
  by (induction ks) (auto simp: List.map_filter_simps split: option.splits)

lemma map_filter_keys:
  "map fst (List.map_filter (\<lambda>k. map_option (Pair k) (map_of M k)) ks) = filter (\<lambda>k. map_of M k \<noteq> None) ks"
  by (induction ks) (auto simp: List.map_filter_simps split: option.splits)

lemma seven_keys:
  assumes "seven_properties c"
  shows "length (cmd_keys c) = 7"
    and "filter (\<lambda>k. map_of (Command_members c) k \<noteq> None) (cmd_keys c) = cmd_keys c"
    and "set (cmd_keys c) = {''id'', ''name'', ''command'', ''image'', ''tags'', ''favorite'', ''category''}"
proof -
  show keys: "set (cmd_keys c) = {''id'', ''name'', ''command'', ''image'', ''tags'', ''favorite'', ''category''}"
    using assms by (simp add: seven_properties_def default_keys_def)
  have "distinct default_keys" "length default_keys = 7"
    by (simp_all add: default_keys_def)
  then have "card (set default_keys) = 7"
    by (simp only: distinct_card)
  moreover have "distinct (cmd_keys c)"
    using assms by (simp add: seven_properties_def)
  then have "card (set (cmd_keys c)) = length (cmd_keys c)"
    by (rule distinct_card)
  moreover have "set (cmd_keys c) = set default_keys"
    using assms by (simp add: seven_properties_def)
  ultimately show "length (cmd_keys c) = 7"
    by simp
  have "\<forall>k \<in> set (cmd_keys c). map_of (Command_members c) k \<noteq> None"
    unfolding keys by (simp add: Command_members_def)
  then show "filter (\<lambda>k. map_of (Command_members c) k \<noteq> None) (cmd_keys c) = cmd_keys c"
    by (simp add: filter_id_conv)
qed

lemma as_Command_json:
  assumes "seven_properties c"
  shows "as_Command (Command_json c) = Some c"
proof -
  let ?ms = "List.map_filter (\<lambda>k. map_option (Pair k) (map_of (Command_members c) k)) (cmd_keys c)"
  have keys: "map fst ?ms = cmd_keys c"
    by (simp only: map_filter_keys seven_keys(2) [OF assms])
  then have len: "length ?ms = 7"
    using seven_keys(1) [OF assms] by (metis length_map)
  have at: "map_of ?ms ''id'' = Some (JNum (cmd_id c))" "map_of ?ms ''name'' = Some (JStr (cmd_name c))"
    "map_of ?ms ''command'' = Some (JStr (cmd_command c))" "map_of ?ms ''image'' = Some (JStr (cmd_image c))"
    "map_of ?ms ''tags'' = Some (JArr (map JStr (cmd_tags c)))"
    "map_of ?ms ''favorite'' = Some (JBool (cmd_favorite c))"
    "map_of ?ms ''category'' = Some (case cmd_category c of None \<Rightarrow> JNull | Some s \<Rightarrow> JStr s)"
    by (simp_all only: map_filter_map_of seven_keys(3) [OF assms]) (simp_all add: Command_members_def)
  show ?thesis
    unfolding Command_json_def as_Command_def
    by (cases "cmd_category c") (simp_all add: at keys len as_strings_JStr as_category_def)
qed

lemma Command_member_back:
  assumes "map_of (Command_members c) k = Some v" and "length (cmd_tags c) + 2 \<le> n"
    and "\<bar>cmd_id c\<bar> \<le> int max_safe_integer" and "ch = CHR '','' \<or> ch = CHR ''}''"
  shows "parse_value n (JSON_stringify v @ ch # tail) = Parsed (v, ch # tail)"
proof -
  have one: "1 \<le> n" using assms(2) by simp
  have follows: "ch # tail = [] \<or> \<not> is_digit (hd (ch # tail)) \<and> hd (ch # tail) \<notin> {CHR ''.'', CHR ''e'', CHR ''E''}"
    using assms(4) by auto
  consider "v = JNum (cmd_id c)" | "v = JStr (cmd_name c)" | "v = JStr (cmd_command c)" | "v = JStr (cmd_image c)"
    | "v = JArr (map JStr (cmd_tags c))" | "v = JNull" | s where "v = JStr s" | "v = JBool (cmd_favorite c)"
    using assms(1) by (auto simp: Command_members_def split: if_splits option.splits)
  then show ?thesis
  proof cases
    case 1
    with value_int [OF one follows assms(3)] show ?thesis by simp
  next
    case 5
    with value_strings [OF assms(2)] show ?thesis by (simp del: JSON_stringify.simps)
  next
    case 6
    with value_literal(1) [OF one] show ?thesis by simp
  next
    case 8
    with value_bool [OF one] show ?thesis by (simp del: JSON_stringify.simps)
  qed (simp_all add: value_string [OF one])
qed

lemma parse_Command:
  assumes "seven_properties c" and "\<bar>cmd_id c\<bar> \<le> int max_safe_integer"
  shows "JSON_parse (JSON_stringify (Command_json c)) = Parsed (Command_json c)"
proof -
  let ?ms = "List.map_filter (\<lambda>k. map_option (Pair k) (map_of (Command_members c) k)) (cmd_keys c)"
  let ?text = "\<lambda>m. quote (fst m) @ CHR '':'' # JSON_stringify (snd m)"
  have keys: "map fst ?ms = cmd_keys c"
    by (simp only: map_filter_keys seven_keys(2) [OF assms(1)])
  then have len: "length ?ms = 7"
    using seven_keys(1) [OF assms(1)] by (metis length_map)
  then have ne: "?ms \<noteq> []" by auto
  have tags: "(''tags'', JArr (map JStr (cmd_tags c))) \<in> set ?ms"
  proof -
    have "map_of ?ms ''tags'' = Some (JArr (map JStr (cmd_tags c)))"
      by (simp only: map_filter_map_of seven_keys(3) [OF assms(1)]) (simp add: Command_members_def)
    then show ?thesis by (rule map_of_SomeD)
  qed
  have "?text (''tags'', JArr (map JStr (cmd_tags c))) \<in> ?text ` set ?ms"
    using tags by (rule imageI)
  then have "?text (''tags'', JArr (map JStr (cmd_tags c))) \<in> set (map ?text ?ms)"
    by (simp only: set_map)
  then have "length (?text (''tags'', JArr (map JStr (cmd_tags c)))) \<le> length (join (map ?text ?ms))"
    by (rule length_join_mem)
  moreover have "length (quote ''tags'') = 6"
    by (simp add: quote_def escape_char_def code_def)
  then have "length (cmd_tags c) + 9 \<le> length (?text (''tags'', JArr (map JStr (cmd_tags c))))"
    using length_join_quote [of "cmd_tags c"] by (simp add: o_def)
  ultimately have size: "length (cmd_tags c) + 9 \<le> length (JSON_stringify (Command_json c))"
    by (simp add: Command_json_def)
  define n where "n = length (JSON_stringify (Command_json c))"
  have fuel: "length ?ms + (length (cmd_tags c) + 2) \<le> n"
    using size len by (simp add: n_def)
  have "parse_members n (join (map ?text ?ms) @ CHR ''}'' # []) = Parsed (?ms, [])"
    using ne _ fuel
  proof (rule members_back)
    fix k v n' ch tail
    assume "(k, v) \<in> set ?ms" and "length (cmd_tags c) + 2 \<le> n'" and "ch = CHR '','' \<or> ch = CHR ''}''"
    then show "parse_value n' (JSON_stringify v @ ch # tail) = Parsed (v, ch # tail)"
      using map_filter_mem [of k v "Command_members c" "cmd_keys c"] assms(2)
      by (intro Command_member_back [of c k]) simp_all
  qed
  with ne have "parse_value (Suc n) (JSON_stringify (JObj ?ms)) = Parsed (JObj ?ms, [])"
    by (rule object_back)
  then show ?thesis
    unfolding n_def Command_json_def by (rule top_level [unfolded Command_json_def])
qed

lemma show_small: "show_int 1 = ''1''" "show_int 2 = ''2''" "show_int 3 = ''3''"
  by (simp_all add: show_int_def show_nat.simps digit_char_def)




section \<open>Renaming a tag\<close>

lemmas string_eval = trim_def ws1_def ws2_def ws3_def code_def toLowerCase_ASCII_def lower_def

text \<open>
  C5, as the claim states it: a rename whose trimmed new name equals, without regard to
  case, the name of another tag is rejected with a conflict report. It fails where the
  trimmed name is empty and the list holds the unnamed tag that \<^verbatim>\<open>addNewTag\<close> puts there:
  the test for a missing name comes first, and the report is the one for a missing name.
\<close>

theorem blank_rename_reports_missing_name:
  "name_taken toLowerCase_ASCII (tags blank_rename) 1 (trim (editTagName blank_rename))
   \<and> toasts (handleSaveTag toLowerCase_ASCII accepts_all blank_rename 1) = [(''Tag name is required!'', Error)]"
  by (simp add: blank_rename_def handleSaveTag_def name_taken_def addToast_def string_eval)

text \<open>
  C5, amended: for every rename whose trimmed new name is not empty and equals, without
  regard to case, the name of a tag with another id, the handler only adds the conflict
  report: \<^verbatim>\<open>window.storage.set\<close> is not called, localStorage, the tags and the commands
  are as before. (With an empty trimmed name the report is the one for a missing name,
  and nothing is written either.)
\<close>

theorem rename_conflict_rejected:
  assumes "name_taken toLowerCase (tags st) i (trim (editTagName st))"
  shows "handleSaveTag toLowerCase refuses st i =
           addToast st (if trim (editTagName st) = [] then ''Tag name is required!''
                        else ''A tag with this name already exists!'') Error
       \<and> set_calls (handleSaveTag toLowerCase refuses st i) = set_calls st
       \<and> local_storage (handleSaveTag toLowerCase refuses st i) = local_storage st
       \<and> tags (handleSaveTag toLowerCase refuses st i) = tags st
       \<and> commands (handleSaveTag toLowerCase refuses st i) = commands st"
  using assms by (simp add: handleSaveTag_def addToast_def Let_def)

theorem rename_conflict_rejected_witness:
  "name_taken toLowerCase_ASCII (tags conflict_rename) 2 (trim (editTagName conflict_rename))
   \<and> trim (editTagName conflict_rename) = ''aDMIN''
   \<and> toasts (handleSaveTag toLowerCase_ASCII accepts_all conflict_rename 2) = [(''A tag with this name already exists!'', Error)]
   \<and> set_calls (handleSaveTag toLowerCase_ASCII accepts_all conflict_rename 2) = []
   \<and> local_storage (handleSaveTag toLowerCase_ASCII accepts_all conflict_rename 2) = []
   \<and> tags (handleSaveTag toLowerCase_ASCII accepts_all conflict_rename 2) = tags conflict_rename"
proof -
  have taken: "name_taken toLowerCase_ASCII (tags conflict_rename) 2 (trim (editTagName conflict_rename))"
    by (simp add: conflict_rename_def name_taken_def string_eval)
  have trimmed: "trim (editTagName conflict_rename) = ''aDMIN''"
    by (simp add: conflict_rename_def string_eval)
  show ?thesis
    using rename_conflict_rejected [where toLowerCase = toLowerCase_ASCII and refuses = accepts_all, OF taken] taken trimmed
    by (simp add: addToast_def conflict_rename_def)
qed

lemma wss_fields [simp]:
  "set_calls (snd (window_storage_set H st k v)) = set_calls st @ [(k, v)]"
  "commands (snd (window_storage_set H st k v)) = commands st"
  "tags (snd (window_storage_set H st k v)) = tags st"
  "toasts (snd (window_storage_set H st k v)) = toasts st"
  "mounted (snd (window_storage_set H st k v)) = mounted st"
  "window_storage (snd (window_storage_set H st k v)) = window_storage st"
  "local_storage (snd (window_storage_set H st k v)) = snd (StorageAdapter_set H (local_storage st) k v)"
  by (simp_all add: window_storage_set_def)


lemma loop_same [simp]:
  "tags (rename_in_commands H old new cmds st) = tags st"
  "toasts (rename_in_commands H old new cmds st) = toasts st"
  "mounted (rename_in_commands H old new cmds st) = mounted st"
  by (induction cmds arbitrary: st) (simp_all add: Let_def)








section \<open>The wiki and the memory cache in fetchDSTImage\<close>

lemma try_patterns_none:
  "\<forall>f \<in> set fs. attempt wiki f = NotFound \<Longrightarrow> try_patterns wiki fs = Some (None, map api_url fs)"
  by (induction fs) simp_all

lemma try_patterns_found:
  assumes "\<forall>f \<in> set pre. attempt wiki f = NotFound" and "attempt wiki g = Found u"
  shows "try_patterns wiki (pre @ g # post) = Some (Some u, map api_url (pre @ [g]))"
  using assms by (induction pre) simp_all

lemma fetch_miss:
  assumes "trim itemName \<noteq> []"
    and "ImageCacheManager_get cache (trim (toLowerCase itemName)) = None"
    and "read_image_cache now ls (trim (toLowerCase itemName)) = Miss ls1"
  shows "fetchDSTImage toLowerCase refuses wiki now now' cache ls itemName =
     (case try_patterns wiki (patterns itemName) of
        None \<Rightarrow> None
      | Some (None, requests) \<Rightarrow>
          Some \<lparr>returned = None, requested = requests, memoryCache = cache, stored = ls1\<rparr>
      | Some (Some imageUrl, requests) \<Rightarrow>
          Some \<lparr>returned = Some imageUrl, requested = requests,
                memoryCache = ImageCacheManager_set cache (trim (toLowerCase itemName)) imageUrl,
                stored = write_image_cache refuses now' ls1 (trim (toLowerCase itemName)) imageUrl\<rparr>)"
proof -
  have "itemName \<noteq> []" using assms(1) by (auto simp: trim_def)
  with assms show ?thesis
    by (simp add: fetchDSTImage_def Let_def)
qed

lemma failures_not_found:
  "wiki (api_url f) = NetworkError \<Longrightarrow> attempt wiki f = NotFound"
  "wiki (api_url f) = NotOk \<Longrightarrow> attempt wiki f = NotFound"
  "wiki (api_url f) = BodyError \<Longrightarrow> attempt wiki f = NotFound"
  "wiki (api_url f) = Body JNull \<Longrightarrow> attempt wiki f = NotFound"
  "wiki (api_url f) = Body d \<Longrightarrow> member ''pages'' (member ''query'' (Some d)) = None \<Longrightarrow> attempt wiki f = NotFound"
  by (simp_all add: attempt_def image_url_def)

lemmas url_eval = api_url_def encodeURIComponent_def uri_unreserved_def hex_upper_def code_def

lemma spider_key: "trim (toLowerCase_ASCII ''Spider'') = ''spider''" and spider_trim: "trim ''Spider'' = ''Spider''"
  by (simp_all add: string_eval)

lemma spider_attempts:
  "attempt spider_wiki ''Spider_Build.png'' = NotFound"
  "attempt spider_wiki ''Spider.png'' = Found spider_url"
  by (simp_all add: attempt_def spider_wiki_def image_url_def url_eval spider_url_def)

lemma down_attempts: "attempt wiki_down f = NotFound"
  by (simp add: attempt_def wiki_down_def)


text \<open>
  C4. A name that is not blank, with nothing in the memory cache and nothing usable in
  localStorage. The candidates are the name with \<^verbatim>\<open>_Build.png\<close>, \<^verbatim>\<open>.png\<close>, \<^verbatim>\<open>_Portrait.png\<close>
  and \<^verbatim>\<open>_Icon.png\<close>, in this order. If candidate \<open>i\<close> is the first for which the wiki
  gives a url, that url is returned and the requests made are those for the candidates up
  to \<open>i\<close>, in order, and no more. If none of the four gives a url, null is returned after
  the four requests, and the memory cache is as before. A candidate gives no url, and the
  next one follows, when \<^verbatim>\<open>fetch\<close> rejects, when the response is not ok, when its body is
  no JSON, when the body is null, has no \<^verbatim>\<open>query.pages\<close>, or has a page without
  \<^verbatim>\<open>imageinfo[0].url\<close>.
\<close>

theorem remote_candidates_in_order:
  assumes "trim itemName \<noteq> []"
    and "ImageCacheManager_get cache (trim (toLowerCase itemName)) = None"
    and "read_image_cache now ls (trim (toLowerCase itemName)) = Miss ls1"
  shows "patterns itemName =
           [itemName @ ''_Build.png'', itemName @ ''.png'', itemName @ ''_Portrait.png'', itemName @ ''_Icon.png'']
     \<and> (i < 4 \<and> (\<forall>j < i. attempt wiki (patterns itemName ! j) = NotFound)
            \<and> attempt wiki (patterns itemName ! i) = Found imageUrl
          \<longrightarrow> map_option returned (fetchDSTImage toLowerCase refuses wiki now now' cache ls itemName) = Some (Some imageUrl)
            \<and> map_option requested (fetchDSTImage toLowerCase refuses wiki now now' cache ls itemName)
                = Some (map api_url (take (Suc i) (patterns itemName))))
     \<and> ((\<forall>j < 4. attempt wiki (patterns itemName ! j) = NotFound)
          \<longrightarrow> fetchDSTImage toLowerCase refuses wiki now now' cache ls itemName
              = Some \<lparr>returned = None, requested = map api_url (patterns itemName),
                      memoryCache = cache, stored = ls1\<rparr>)
     \<and> (wiki (api_url f) = NetworkError \<or> wiki (api_url f) = NotOk \<or> wiki (api_url f) = BodyError
          \<or> wiki (api_url f) = Body JNull
          \<or> wiki (api_url f) = Body d \<and> member ''pages'' (member ''query'' (Some d)) = None
          \<or> wiki (api_url f) = Body d \<and> member ''url'' (index0 (member ''imageinfo'' (Some page))) = None
              \<and> member ''pages'' (member ''query'' (Some d)) = Some (JObj [(pageid, page)])
          \<longrightarrow> attempt wiki f = NotFound)"
proof (intro conjI impI)
  show "patterns itemName =
      [itemName @ ''_Build.png'', itemName @ ''.png'', itemName @ ''_Portrait.png'', itemName @ ''_Icon.png'']"
    by (simp add: patterns_def)
next
  assume a: "i < 4 \<and> (\<forall>j < i. attempt wiki (patterns itemName ! j) = NotFound)
            \<and> attempt wiki (patterns itemName ! i) = Found imageUrl"
  let ?ps = "patterns itemName"
  have len: "length ?ps = 4" by (simp add: patterns_def)
  with a have split: "?ps = take i ?ps @ ?ps ! i # drop (Suc i) ?ps"
    by (simp add: id_take_nth_drop)
  have pre: "\<forall>f \<in> set (take i ?ps). attempt wiki f = NotFound"
    using a len by (auto simp: in_set_conv_nth)
  have "try_patterns wiki (take i ?ps @ ?ps ! i # drop (Suc i) ?ps)
      = Some (Some imageUrl, map api_url (take i ?ps @ [?ps ! i]))"
    using pre a by (intro try_patterns_found) auto
  moreover have "take i ?ps @ [?ps ! i] = take (Suc i) ?ps"
    using a len by (simp add: take_Suc_conv_app_nth)
  ultimately have tp: "try_patterns wiki ?ps = Some (Some imageUrl, map api_url (take (Suc i) ?ps))"
    using split by metis
  show "map_option returned (fetchDSTImage toLowerCase refuses wiki now now' cache ls itemName) = Some (Some imageUrl)"
    by (simp add: fetch_miss [where toLowerCase = toLowerCase, OF assms] tp)
  show "map_option requested (fetchDSTImage toLowerCase refuses wiki now now' cache ls itemName)
      = Some (map api_url (take (Suc i) ?ps))"
    by (simp add: fetch_miss [where toLowerCase = toLowerCase, OF assms] tp)
next
  assume a: "\<forall>j < 4. attempt wiki (patterns itemName ! j) = NotFound"
  have "length (patterns itemName) = 4" by (simp add: patterns_def)
  with a have "\<forall>f \<in> set (patterns itemName). attempt wiki f = NotFound"
    by (auto simp: in_set_conv_nth)
  then have "try_patterns wiki (patterns itemName) = Some (None, map api_url (patterns itemName))"
    by (rule try_patterns_none)
  then show "fetchDSTImage toLowerCase refuses wiki now now' cache ls itemName
      = Some \<lparr>returned = None, requested = map api_url (patterns itemName), memoryCache = cache, stored = ls1\<rparr>"
    by (simp add: fetch_miss [where toLowerCase = toLowerCase, OF assms])
next
  assume "wiki (api_url f) = NetworkError \<or> wiki (api_url f) = NotOk \<or> wiki (api_url f) = BodyError
          \<or> wiki (api_url f) = Body JNull
          \<or> wiki (api_url f) = Body d \<and> member ''pages'' (member ''query'' (Some d)) = None
          \<or> wiki (api_url f) = Body d \<and> member ''url'' (index0 (member ''imageinfo'' (Some page))) = None
              \<and> member ''pages'' (member ''query'' (Some d)) = Some (JObj [(pageid, page)])"
  then show "attempt wiki f = NotFound"
    by (auto simp: attempt_def image_url_def)
qed

theorem remote_candidates_in_order_witness:
  "trim ''Spider'' \<noteq> []
   \<and> ImageCacheManager_get [] (trim (toLowerCase_ASCII ''Spider'')) = None
   \<and> read_image_cache 1700000000000 [] (trim (toLowerCase_ASCII ''Spider'')) = Miss []
   \<and> attempt spider_wiki (patterns ''Spider'' ! 0) = NotFound
   \<and> attempt spider_wiki (patterns ''Spider'' ! 1) = Found spider_url
   \<and> map_option returned (fetchDSTImage toLowerCase_ASCII accepts_all spider_wiki 1700000000000 1700000000900 [] [] ''Spider'')
        = Some (Some spider_url)
   \<and> map_option requested (fetchDSTImage toLowerCase_ASCII accepts_all spider_wiki 1700000000000 1700000000900 [] [] ''Spider'')
        = Some [api_url ''Spider_Build.png'', api_url ''Spider.png'']
   \<and> fetchDSTImage toLowerCase_ASCII accepts_all wiki_down 1700000000000 1700000000900 [] [] ''Spider''
        = Some \<lparr>returned = None,
                requested = [api_url ''Spider_Build.png'', api_url ''Spider.png'',
                             api_url ''Spider_Portrait.png'', api_url ''Spider_Icon.png''],
                memoryCache = [], stored = []\<rparr>"
proof -
  have a: "trim ''Spider'' \<noteq> []"
    by (simp add: spider_trim)
  have b: "ImageCacheManager_get [] (trim (toLowerCase_ASCII ''Spider'')) = None"
    by (simp add: ImageCacheManager_get_def)
  have c: "read_image_cache 1700000000000 [] (trim (toLowerCase_ASCII ''Spider'')) = Miss []"
    by (simp add: read_image_cache_def getItem_def)
  have p: "patterns ''Spider'' = [''Spider_Build.png'', ''Spider.png'', ''Spider_Portrait.png'', ''Spider_Icon.png'']"
    by (simp add: patterns_def)
  have d: "attempt spider_wiki (patterns ''Spider'' ! 0) = NotFound"
    and e: "attempt spider_wiki (patterns ''Spider'' ! 1) = Found spider_url"
    by (simp_all add: p spider_attempts)
  have f: "\<forall>j<1. attempt spider_wiki (patterns ''Spider'' ! j) = NotFound"
    using d by simp
  have g: "\<forall>j<4. attempt wiki_down (patterns ''Spider'' ! j) = NotFound"
    by (simp add: down_attempts)
  note first = remote_candidates_in_order [where toLowerCase = toLowerCase_ASCII and wiki = spider_wiki
      and i = 1 and imageUrl = spider_url and refuses = accepts_all and now' = 1700000000900, OF a b c]
  note second = remote_candidates_in_order [where toLowerCase = toLowerCase_ASCII and wiki = wiki_down
      and refuses = accepts_all and now' = 1700000000900, OF a b c]
  from first f e have
    "map_option returned (fetchDSTImage toLowerCase_ASCII accepts_all spider_wiki 1700000000000 1700000000900 [] [] ''Spider'')
        = Some (Some spider_url)"
    "map_option requested (fetchDSTImage toLowerCase_ASCII accepts_all spider_wiki 1700000000000 1700000000900 [] [] ''Spider'')
        = Some [api_url ''Spider_Build.png'', api_url ''Spider.png'']"
    by (simp_all add: p del: One_nat_def)
  moreover from second g have
    "fetchDSTImage toLowerCase_ASCII accepts_all wiki_down 1700000000000 1700000000900 [] [] ''Spider''
        = Some \<lparr>returned = None,
                requested = [api_url ''Spider_Build.png'', api_url ''Spider.png'',
                             api_url ''Spider_Portrait.png'', api_url ''Spider_Icon.png''],
                memoryCache = [], stored = []\<rparr>"
    by (simp add: p)
  ultimately show ?thesis
    using a b c d e by simp
qed

text \<open>
  C8. If a call returns a url (a non-empty string: what the callers test with
  \<^verbatim>\<open>if (imageUrl)\<close>), then the next call with the same name, on the memory cache and the
  store the first call left, returns the same url, requests nothing from the wiki,
  whatever the wiki would answer and whatever the time is, and changes neither the memory
  cache nor the store.
\<close>

theorem second_resolve_from_cache:
  assumes "fetchDSTImage toLowerCase refuses wiki now now' cache ls itemName = Some r"
    and "returned r = Some imageUrl" and "imageUrl \<noteq> []"
  shows "fetchDSTImage toLowerCase refuses' wiki' later later' (memoryCache r) (stored r) itemName
       = Some \<lparr>returned = Some imageUrl, requested = [], memoryCache = memoryCache r, stored = stored r\<rparr>"
proof -
  let ?key = "trim (toLowerCase itemName)"
  have nonblank: "\<not> (itemName = [] \<or> trim itemName = [])"
    using assms(1,2) by (auto simp: fetchDSTImage_def)
  have "ImageCacheManager_get (memoryCache r) ?key = Some imageUrl"
  proof (cases "ImageCacheManager_get cache ?key")
    case (Some cached)
    with assms(1,2) nonblank show ?thesis
      by (auto simp: fetchDSTImage_def Let_def)
  next
    case None
    with assms(1,2) nonblank have "memoryCache r = ImageCacheManager_set cache ?key imageUrl"
      by (auto simp: fetchDSTImage_def Let_def split: durable.splits option.splits prod.splits)
    with assms(3) show ?thesis
      by (simp add: ImageCacheManager_get_def map_of_set_same)
  qed
  with nonblank show ?thesis
    by (simp add: fetchDSTImage_def Let_def)
qed

theorem second_resolve_from_cache_witness:
  "fetchDSTImage toLowerCase_ASCII accepts_all spider_wiki 1700000000000 1700000000900 [] [] ''Spider''
     = Some \<lparr>returned = Some spider_url,
             requested = [api_url ''Spider_Build.png'', api_url ''Spider.png''],
             memoryCache = [(''spider'', spider_url)],
             stored = write_image_cache accepts_all 1700000000900 [] ''spider'' spider_url\<rparr>
   \<and> spider_url \<noteq> []
   \<and> fetchDSTImage toLowerCase_ASCII accepts_all wiki_down 1800000000000 1800000000900 [(''spider'', spider_url)]
         (write_image_cache accepts_all 1700000000900 [] ''spider'' spider_url) ''Spider''
     = Some \<lparr>returned = Some spider_url, requested = [],
             memoryCache = [(''spider'', spider_url)],
             stored = write_image_cache accepts_all 1700000000900 [] ''spider'' spider_url\<rparr>"
proof -
  have p: "patterns ''Spider'' = [''Spider_Build.png'', ''Spider.png'', ''Spider_Portrait.png'', ''Spider_Icon.png'']"
    by (simp add: patterns_def)
  have ne: "spider_url \<noteq> []"
    by (simp add: spider_url_def)
  have first: "fetchDSTImage toLowerCase_ASCII accepts_all spider_wiki 1700000000000 1700000000900 [] [] ''Spider''
     = Some \<lparr>returned = Some spider_url,
             requested = [api_url ''Spider_Build.png'', api_url ''Spider.png''],
             memoryCache = [(''spider'', spider_url)],
             stored = write_image_cache accepts_all 1700000000900 [] ''spider'' spider_url\<rparr>"
    by (simp add: fetchDSTImage_def spider_key spider_trim ImageCacheManager_get_def read_image_cache_def
        getItem_def p spider_attempts ImageCacheManager_set_def maxCacheSize_def Let_def)
  let ?r = "\<lparr>returned = Some spider_url,
             requested = [api_url ''Spider_Build.png'', api_url ''Spider.png''],
             memoryCache = [(''spider'', spider_url)],
             stored = write_image_cache accepts_all 1700000000900 [] ''spider'' spider_url\<rparr>"
  from second_resolve_from_cache [where toLowerCase = toLowerCase_ASCII
      and refuses = accepts_all and wiki = spider_wiki
      and now = 1700000000000 and now' = 1700000000900 and cache = "[]" and ls = "[]"
      and itemName = "''Spider''" and r = ?r and imageUrl = spider_url
      and refuses' = accepts_all and wiki' = wiki_down
      and later = 1800000000000 and later' = 1800000000900]
  show ?thesis
    using first ne by simp
qed

section \<open>The localStorage cache of images\<close>

lemma JSON_stringify_entry_not_Nil:
  "JSON_stringify (JObj [(''url'', JStr url), (''timestamp'', JNum t)]) \<noteq> []"
  by simp

lemma read_written:
  assumes "\<not> refuses ls (image_key key) (JSON_stringify (JObj [(''url'', JStr url), (''timestamp'', JNum t)]))"
    and "\<bar>t\<bar> \<le> int max_safe_integer"
  shows "read_image_cache now (write_image_cache refuses t ls key url) key =
     (if now - t < cache_expiry then Hit url
      else Miss (removeItem (write_image_cache refuses t ls key url) (image_key key)))"
proof -
  let ?text = "JSON_stringify (JObj [(''url'', JStr url), (''timestamp'', JNum t)])"
  have w: "write_image_cache refuses t ls key url = AList.update (image_key key) ?text ls"
    using assms(1) by (simp add: write_image_cache_def setItem_def)
  have g: "getItem (AList.update (image_key key) ?text ls) (image_key key) = Some ?text"
    by (simp add: getItem_def update_conv')
  show ?thesis
    unfolding w read_image_cache_def g
    using JSON_stringify_entry_not_Nil [of url t]
    by (simp add: parse_entry [OF assms(2)] del: JSON_stringify.simps)
qed

lemma read_removed:
  "read_image_cache later (removeItem ls (image_key key)) key = Miss (removeItem ls (image_key key))"
  by (simp add: read_image_cache_def getItem_def removeItem_def delete_conv')

text \<open>
  C2. A record of the image cache written at time \<open>t\<close> (a safe integer, as every reading
  of \<^verbatim>\<open>Date.now()\<close> is) by a write the user agent accepts. A read at a time \<open>now\<close> with
  \<open>now - t\<close> below seven days returns the stored url. A read with \<open>now - t\<close> of seven days
  or more returns nothing and removes the record; the key is then absent from the store,
  and a read at any later time finds nothing and changes nothing. \<^verbatim>\<open>fetchDSTImage\<close> makes
  this read when the memory cache has nothing for the name: on a record that is not yet
  seven days old it returns the url without a request to the wiki.
\<close>

theorem durable_entry_expiry:
  assumes "\<not> refuses ls (image_key key) (JSON_stringify (JObj [(''url'', JStr url), (''timestamp'', JNum t)]))"
    and "\<bar>t\<bar> \<le> int max_safe_integer"
  shows "(now - t < cache_expiry \<longrightarrow>
            read_image_cache now (write_image_cache refuses t ls key url) key = Hit url)
       \<and> (cache_expiry \<le> now - t \<longrightarrow>
            read_image_cache now (write_image_cache refuses t ls key url) key
              = Miss (removeItem (write_image_cache refuses t ls key url) (image_key key))
          \<and> getItem (removeItem (write_image_cache refuses t ls key url) (image_key key)) (image_key key) = None
          \<and> read_image_cache later (removeItem (write_image_cache refuses t ls key url) (image_key key)) key
              = Miss (removeItem (write_image_cache refuses t ls key url) (image_key key)))
       \<and> (now - t < cache_expiry \<and> trim itemName \<noteq> [] \<and> trim (toLowerCase itemName) = key
            \<and> ImageCacheManager_get cache key = None \<longrightarrow>
            fetchDSTImage toLowerCase refuses' wiki now now' cache (write_image_cache refuses t ls key url) itemName
              = Some \<lparr>returned = Some url, requested = [],
                      memoryCache = ImageCacheManager_set cache key url,
                      stored = write_image_cache refuses t ls key url\<rparr>)"
proof -
  have "fetchDSTImage toLowerCase refuses' wiki now now' cache (write_image_cache refuses t ls key url) itemName
      = Some \<lparr>returned = Some url, requested = [],
              memoryCache = ImageCacheManager_set cache key url,
              stored = write_image_cache refuses t ls key url\<rparr>"
    if "now - t < cache_expiry" "trim itemName \<noteq> []" "trim (toLowerCase itemName) = key"
      "ImageCacheManager_get cache key = None"
  proof -
    have "itemName \<noteq> []" using that(2) by (auto simp: trim_def)
    moreover have "read_image_cache now (write_image_cache refuses t ls key url) key = Hit url"
      using assms that(1) read_written [of refuses ls key url t now] by simp
    ultimately show ?thesis
      using that by (simp add: fetchDSTImage_def Let_def)
  qed
  then show ?thesis
    using assms read_written [of refuses ls key url t now]
      read_removed [of later "write_image_cache refuses t ls key url" key]
    by (simp add: getItem_def removeItem_def delete_conv')
qed

theorem durable_entry_expiry_witness:
  "\<not> accepts_all [] (image_key ''spider'')
        (JSON_stringify (JObj [(''url'', JStr spider_url), (''timestamp'', JNum 1700000000000)]))
   \<and> \<bar>1700000000000\<bar> \<le> int max_safe_integer
   \<and> read_image_cache 1700604799999 (write_image_cache accepts_all 1700000000000 [] ''spider'' spider_url) ''spider''
       = Hit spider_url
   \<and> read_image_cache 1700604800000 (write_image_cache accepts_all 1700000000000 [] ''spider'' spider_url) ''spider''
       = Miss []
   \<and> read_image_cache 1700604800001 [] ''spider'' = Miss []
   \<and> fetchDSTImage toLowerCase_ASCII accepts_all wiki_down 1700604799999 1700604799999 []
         (write_image_cache accepts_all 1700000000000 [] ''spider'' spider_url) ''Spider''
       = Some \<lparr>returned = Some spider_url, requested = [],
               memoryCache = [(''spider'', spider_url)],
               stored = write_image_cache accepts_all 1700000000000 [] ''spider'' spider_url\<rparr>"
proof -
  have a: "\<not> accepts_all [] (image_key ''spider'')
        (JSON_stringify (JObj [(''url'', JStr spider_url), (''timestamp'', JNum 1700000000000)]))"
    by (simp add: accepts_all_def)
  have b: "\<bar>1700000000000\<bar> \<le> int max_safe_integer"
    by (simp add: max_safe_integer_def)
  have c: "removeItem (write_image_cache accepts_all 1700000000000 [] ''spider'' spider_url)
      (image_key ''spider'') = []"
    by (simp add: write_image_cache_def setItem_def accepts_all_def removeItem_def del: JSON_stringify.simps)
  have d: "ImageCacheManager_get [] ''spider'' = None"
    "ImageCacheManager_set [] ''spider'' spider_url = [(''spider'', spider_url)]"
    by (simp_all add: ImageCacheManager_get_def ImageCacheManager_set_def maxCacheSize_def)
  show ?thesis
    using durable_entry_expiry [where toLowerCase = toLowerCase_ASCII
          and refuses = accepts_all and ls = "[]" and key = "''spider''"
          and url = spider_url and t = 1700000000000 and now = 1700604799999
          and later = 1700604800001 and itemName = "''Spider''" and cache = "[]"
          and refuses' = accepts_all and wiki = wiki_down and now' = 1700604799999]
      durable_entry_expiry [where toLowerCase = toLowerCase_ASCII
          and refuses = accepts_all and ls = "[]" and key = "''spider''"
          and url = spider_url and t = 1700000000000 and now = 1700604800000
          and later = 1700604800001 and itemName = "''Spider''" and cache = "[]"
          and refuses' = accepts_all and wiki = wiki_down and now' = 1700604800000] a b
    by (simp add: cache_expiry_def c d spider_key spider_trim del: JSON_stringify.simps)
qed

section \<open>Loading from an empty store\<close>

lemma list_append:
  "StorageAdapter_list (ls @ ls') p = StorageAdapter_list ls p @ StorageAdapter_list ls' p"
  by (simp add: StorageAdapter_list_def)

lemma list_empty_fresh:
  assumes "StorageAdapter_list ls p = []"
  shows "adapter_prefix @ p @ x \<notin> fst ` set ls"
proof
  assume "adapter_prefix @ p @ x \<in> fst ` set ls"
  then have "adapter_prefix @ p @ x \<in> set (filter (\<lambda>key. key \<noteq> [] \<and> startsWith key (adapter_prefix @ p)) (map fst ls))"
    by (simp add: startsWith_def adapter_prefix_def)
  with assms show False
    by (simp add: StorageAdapter_list_def del: set_filter)
qed

lemma set_fresh:
  assumes "\<not> refuses ls (adapter_prefix @ k) v" and "v \<noteq> []" and "length v \<le> 4800000"
    and "adapter_prefix @ k \<notin> fst ` set ls"
  shows "StorageAdapter_set refuses ls k v = (True, ls @ [(adapter_prefix @ k, v)])"
  using assms by (simp add: StorageAdapter_set_def setItem_def update_fresh)

lemma seed:
  assumes "\<And>ls k v. \<not> refuses ls k v"
    and "\<forall>w \<in> set ws. snd w \<noteq> [] \<and> length (snd w) \<le> 4800000"
    and "distinct (map fst ws)"
    and "\<forall>w \<in> set ws. adapter_prefix @ fst w \<notin> fst ` set (local_storage st)"
  shows "foldl (\<lambda>s w. snd (window_storage_set refuses s (fst w) (snd w))) st ws
       = st\<lparr>local_storage := local_storage st @ map stored_as ws, set_calls := set_calls st @ ws\<rparr>"
  using assms(2-4)
proof (induction ws arbitrary: st)
  case Nil
  then show ?case by simp
next
  case (Cons w ws)
  let ?st1 = "st\<lparr>local_storage := local_storage st @ [stored_as w], set_calls := set_calls st @ [w]\<rparr>"
  have step: "snd (window_storage_set refuses st (fst w) (snd w)) = ?st1"
    using Cons.prems assms(1) by (simp add: window_storage_set_def set_fresh stored_as_def)
  have "adapter_prefix @ fst w' \<notin> fst ` set (local_storage ?st1)" if "w' \<in> set ws" for w'
  proof -
    from that Cons.prems(2) have "fst w' \<noteq> fst w" by (metis distinct.simps(2) image_eqI list.simps(9) set_map)
    moreover from that Cons.prems(3) have "adapter_prefix @ fst w' \<notin> fst ` set (local_storage st)" by simp
    ultimately show ?thesis by (simp add: stored_as_def)
  qed
  then have "\<forall>w' \<in> set ws. adapter_prefix @ fst w' \<notin> fst ` set (local_storage ?st1)"
    by blast
  with Cons.IH [of ?st1] Cons.prems show ?case
    by (simp add: step)
qed

lemma default_tag_writes:
  "map fst (map tag_write DEFAULT_TAGS) = [''dsttag:1'', ''dsttag:2'', ''dsttag:3'']"
  by (simp add: DEFAULT_TAGS_def tag_write_def show_small)

lemma default_command_writes:
  "map fst (map command_write DEFAULT_COMMANDS) = [''dst:1'', ''dst:2'', ''dst:3'']"
  by (simp add: DEFAULT_COMMANDS_def command_write_def show_small)

lemma length_show_nat: "length (show_nat n) \<le> Suc n"
proof (induction n rule: show_nat.induct)
  case (1 n)
  show ?case
  proof (cases "n < 10")
    case True
    then show ?thesis by (subst show_nat.simps) simp
  next
    case False
    with 1 have "length (show_nat (n div 10)) \<le> Suc (n div 10)" by simp
    with False show ?thesis by (subst show_nat.simps) simp
  qed
qed

lemma length_escape: "length (escape_char c) \<le> 6"
  by (simp add: escape_char_def)

lemma length_escaped: "length (concat (map escape_char s)) \<le> 6 * length s"
proof (induction s)
  case (Cons c s)
  then show ?case using length_escape [of c] by simp
qed simp

lemma length_quote_le: "length (quote s) \<le> 6 * length s + 2"
  using length_escaped [of s] by (simp add: quote_def)

lemma default_tag_sizes:
  "\<forall>w \<in> set (map tag_write DEFAULT_TAGS). snd w \<noteq> [] \<and> length (snd w) \<le> 4800000"
  using length_quote_le [of "''Admin''"] length_quote_le [of "''Spawning''"] length_quote_le [of "''Items''"]
    length_quote_le [of "''#ef4444''"] length_quote_le [of "''#8b5cf6''"] length_quote_le [of "''#10b981''"]
    length_quote_le [of "''id''"] length_quote_le [of "''name''"] length_quote_le [of "''color''"]
  by (simp add: DEFAULT_TAGS_def tag_write_def Tag_json_def show_small)

lemma default_command_sizes:
  "\<forall>w \<in> set (map command_write DEFAULT_COMMANDS). snd w \<noteq> [] \<and> length (snd w) \<le> 4800000"
  by (simp add: DEFAULT_COMMANDS_def command_write_def Command_json_def Command_members_def default_keys_def saved_keys_def List.map_filter_simps show_small quote_def escape_char_def code_def)

lemma init_tags:
  assumes "\<And>ls k v. \<not> refuses ls k v" and "window_storage st"
    and "StorageAdapter_list (local_storage st) ''dsttag:'' = []"
  shows "initializeDefaultTags refuses st
       = st\<lparr>local_storage := local_storage st @ map stored_as (map tag_write DEFAULT_TAGS),
            set_calls := set_calls st @ map tag_write DEFAULT_TAGS\<rparr>"
proof -
  have fold: "foldl (\<lambda>s tag. snd (window_storage_set refuses s (''dsttag:'' @ show_int (tag_id tag))
                                   (JSON_stringify (Tag_json tag)))) st DEFAULT_TAGS
      = foldl (\<lambda>s w. snd (window_storage_set refuses s (fst w) (snd w))) st (map tag_write DEFAULT_TAGS)"
    by (simp add: foldl_map tag_write_def del: JSON_stringify.simps)
  have fresh: "\<forall>w \<in> set (map tag_write DEFAULT_TAGS). adapter_prefix @ fst w \<notin> fst ` set (local_storage st)"
    using list_empty_fresh [OF assms(3)] by (simp add: tag_write_def del: JSON_stringify.simps)
  have "distinct (map fst (map tag_write DEFAULT_TAGS))"
    by (simp only: default_tag_writes) simp
  from seed [OF assms(1) default_tag_sizes this fresh] show ?thesis
    using assms(2) by (simp only: initializeDefaultTags_def fold if_True)
qed

lemma init_commands:
  assumes "\<And>ls k v. \<not> refuses ls k v" and "window_storage st"
    and "StorageAdapter_list (local_storage st) ''dst:'' = []"
  shows "initializeDefaults refuses st
       = st\<lparr>local_storage := local_storage st @ map stored_as (map command_write DEFAULT_COMMANDS),
            set_calls := set_calls st @ map command_write DEFAULT_COMMANDS\<rparr>"
proof -
  have fold: "foldl (\<lambda>s cmd. snd (window_storage_set refuses s (''dst:'' @ show_int (cmd_id cmd))
                                   (JSON_stringify (Command_json cmd)))) st DEFAULT_COMMANDS
      = foldl (\<lambda>s w. snd (window_storage_set refuses s (fst w) (snd w))) st (map command_write DEFAULT_COMMANDS)"
    by (simp add: foldl_map command_write_def del: JSON_stringify.simps)
  have fresh: "\<forall>w \<in> set (map command_write DEFAULT_COMMANDS). adapter_prefix @ fst w \<notin> fst ` set (local_storage st)"
    using list_empty_fresh [OF assms(3)] by (simp add: command_write_def del: JSON_stringify.simps)
  have "distinct (map fst (map command_write DEFAULT_COMMANDS))"
    by (simp only: default_command_writes) simp
  from seed [OF assms(1) default_command_sizes this fresh] show ?thesis
    using assms(2) by (simp only: initializeDefaults_def fold if_True)
qed

lemma list_of_writes:
  "StorageAdapter_list (map stored_as (map tag_write DEFAULT_TAGS)) ''dsttag:'' = [''dsttag:1'', ''dsttag:2'', ''dsttag:3'']"
  "StorageAdapter_list (map stored_as (map tag_write DEFAULT_TAGS)) ''dst:'' = []"
  "StorageAdapter_list (map stored_as (map command_write DEFAULT_COMMANDS)) ''dsttag:'' = []"
  "StorageAdapter_list (map stored_as (map command_write DEFAULT_COMMANDS)) ''dst:'' = [''dst:1'', ''dst:2'', ''dst:3'']"
  by (simp_all add: StorageAdapter_list_def stored_as_def o_def DEFAULT_TAGS_def DEFAULT_COMMANDS_def
      tag_write_def command_write_def show_small adapter_prefix_def startsWith_def del: JSON_stringify.simps)

lemma get_written:
  assumes "distinct (map fst ws)" and "w \<in> set ws" and "adapter_prefix @ fst w \<notin> fst ` set ls"
    and that: "adapter_prefix @ fst w \<notin> fst ` set pre"
  shows "StorageAdapter_get (ls @ pre @ map stored_as ws @ post) (fst w) = Some (snd w)"
proof -
  have "distinct (map fst (map stored_as ws))"
    using assms(1) by (simp add: stored_as_def o_def distinct_map inj_on_def)
  moreover have "(adapter_prefix @ fst w, snd w) \<in> set (map stored_as ws)"
    using assms(2) by (auto simp: stored_as_def)
  ultimately have "map_of (map stored_as ws) (adapter_prefix @ fst w) = Some (snd w)"
    by (rule map_of_is_SomeI)
  moreover have "map_of ls (adapter_prefix @ fst w) = None" "map_of pre (adapter_prefix @ fst w) = None"
    using assms(3) that by (simp_all add: map_of_eq_None_iff)
  ultimately show ?thesis
    by (simp add: StorageAdapter_get_def getItem_def map_add_def)
qed

lemma load_written:
  assumes "\<And>x. x \<in> set xs \<Longrightarrow> JSON_parse (snd (write x)) = Parsed (to_json x) \<and> view (to_json x) = Some x
              \<and> snd (write x) \<noteq> [] \<and> StorageAdapter_get ls (fst (write x)) = Some (snd (write x))"
  shows "load_records view ls (map fst (map write xs)) = Some xs"
  using assms by (induction xs) simp_all

lemma sorted_defaults:
  "sort_key tag_id DEFAULT_TAGS = DEFAULT_TAGS" "sort_key cmd_id DEFAULT_COMMANDS = DEFAULT_COMMANDS"
  by (simp_all add: DEFAULT_TAGS_def DEFAULT_COMMANDS_def)

lemma default_ids_safe:
  "t \<in> set DEFAULT_TAGS \<Longrightarrow> \<bar>tag_id t\<bar> \<le> int max_safe_integer"
  "c \<in> set DEFAULT_COMMANDS \<Longrightarrow> \<bar>cmd_id c\<bar> \<le> int max_safe_integer"
  by (auto simp: DEFAULT_TAGS_def DEFAULT_COMMANDS_def max_safe_integer_def)

lemma default_seven: "c \<in> set DEFAULT_COMMANDS \<Longrightarrow> seven_properties c"
  by (auto simp: DEFAULT_COMMANDS_def seven_properties_def default_keys_def)

lemma prefixes_differ:
  "adapter_prefix @ fst (tag_write t) \<noteq> adapter_prefix @ fst (command_write c)"
  by (simp add: tag_write_def command_write_def)

text \<open>
  C7. \<^verbatim>\<open>loadData\<close> on a mounted component whose store lists no key under \<^verbatim>\<open>dsttag:\<close> and
  none under \<^verbatim>\<open>dst:\<close>, with a user agent that accepts the writes. The call sets the tags
  to the three default tags and the commands to the three default commands (ids 1 to 3),
  calls \<^verbatim>\<open>window.storage.set\<close> once for each of the six, and appends their six records to
  localStorage, which then lists \<^verbatim>\<open>dsttag:1\<close> to \<^verbatim>\<open>dsttag:3\<close> and \<^verbatim>\<open>dst:1\<close> to \<^verbatim>\<open>dst:3\<close>.
  A second \<^verbatim>\<open>loadData\<close> on the store the first one left, from any state of the component
  (so from the empty lists of tags and commands of a new mount, and also from the state
  the first call left) and with any user agent, reads the six records back: it sets the
  tags to the three default tags and the commands to the three default commands, the
  property order of each command included, and changes nothing else but \<^verbatim>\<open>loading\<close>; it
  writes nothing.
\<close>

theorem load_on_empty_store:
  assumes "\<And>ls k v. \<not> refuses ls k v" and "window_storage st" and "mounted st"
    and "StorageAdapter_list (local_storage st) ''dsttag:'' = []"
    and "StorageAdapter_list (local_storage st) ''dst:'' = []"
  shows "\<exists>st1. loadData refuses st = Some st1
     \<and> tags st1 = DEFAULT_TAGS \<and> commands st1 = DEFAULT_COMMANDS
     \<and> map tag_id (tags st1) = [1, 2, 3] \<and> map cmd_id (commands st1) = [1, 2, 3]
     \<and> set_calls st1 = set_calls st @ map tag_write DEFAULT_TAGS @ map command_write DEFAULT_COMMANDS
     \<and> local_storage st1 = local_storage st @ map stored_as (map tag_write DEFAULT_TAGS)
                                              @ map stored_as (map command_write DEFAULT_COMMANDS)
     \<and> StorageAdapter_list (local_storage st1) ''dsttag:'' = [''dsttag:1'', ''dsttag:2'', ''dsttag:3'']
     \<and> StorageAdapter_list (local_storage st1) ''dst:'' = [''dst:1'', ''dst:2'', ''dst:3'']
     \<and> loadData refuses st1 = Some st1
     \<and> (\<forall>refuses' st2. window_storage st2 \<and> mounted st2 \<and> local_storage st2 = local_storage st1 \<longrightarrow>
           loadData refuses' st2
             = Some (st2\<lparr>tags := DEFAULT_TAGS, commands := DEFAULT_COMMANDS, loading := False\<rparr>))"
proof -
  let ?T = "map stored_as (map tag_write DEFAULT_TAGS)"
  let ?C = "map stored_as (map command_write DEFAULT_COMMANDS)"
  let ?ls = "local_storage st"
  define st1 where "st1 = st\<lparr>local_storage := ?ls @ ?T @ ?C,
      set_calls := set_calls st @ map tag_write DEFAULT_TAGS @ map command_write DEFAULT_COMMANDS,
      tags := DEFAULT_TAGS, commands := DEFAULT_COMMANDS, loading := False\<rparr>"
  define sa where "sa = (initializeDefaultTags refuses st)\<lparr>tags := DEFAULT_TAGS\<rparr>"
  have lt: "load_tags refuses st = Some sa"
    using assms(3,4) by (simp add: load_tags_def init_tags [OF assms(1,2,4)] sa_def)
  have sa: "window_storage sa" "mounted sa" "local_storage sa = ?ls @ ?T"
    using assms(2,3) by (simp_all add: init_tags [OF assms(1,2,4)] sa_def)
  have la: "StorageAdapter_list (local_storage sa) ''dst:'' = []"
    by (simp only: sa list_append assms(5) list_of_writes) simp
  define sb where "sb = (initializeDefaults refuses sa)\<lparr>commands := DEFAULT_COMMANDS\<rparr>"
  have lc: "load_commands refuses sa = Some sb"
    using la sa(2) by (simp add: load_commands_def init_commands [OF assms(1) sa(1) la] Let_def sb_def)
  have sb: "mounted sb" "sb\<lparr>loading := False\<rparr> = st1"
    using assms(3) unfolding sb_def init_commands [OF assms(1) sa(1) la]
    by (simp_all add: sa_def init_tags [OF assms(1,2,4)] st1_def)
  have first: "loadData refuses st = Some st1"
    unfolding loadData_def using assms(2) by (simp add: lt lc sb)
  have s1: "window_storage st1" "mounted st1" "local_storage st1 = ?ls @ ?T @ ?C"
    "tags st1 = DEFAULT_TAGS" "commands st1 = DEFAULT_COMMANDS" "loading st1 = False"
    "set_calls st1 = set_calls st @ map tag_write DEFAULT_TAGS @ map command_write DEFAULT_COMMANDS"
    using assms(2,3) by (simp_all add: st1_def)
  have keys: "StorageAdapter_list (local_storage st1) ''dsttag:'' = [''dsttag:1'', ''dsttag:2'', ''dsttag:3'']"
    "StorageAdapter_list (local_storage st1) ''dst:'' = [''dst:1'', ''dst:2'', ''dst:3'']"
    by (simp_all only: s1 list_append assms(4,5) list_of_writes append_Nil append_Nil2)
  have dt: "distinct (map fst (map tag_write DEFAULT_TAGS))"
    by (simp only: default_tag_writes) simp
  have dc: "distinct (map fst (map command_write DEFAULT_COMMANDS))"
    by (simp only: default_command_writes) simp
  have get_t: "StorageAdapter_get (local_storage st1) (fst (tag_write t)) = Some (snd (tag_write t))"
    if "t \<in> set DEFAULT_TAGS" for t
  proof -
    have "adapter_prefix @ fst (tag_write t) \<notin> fst ` set ?ls"
      using list_empty_fresh [OF assms(4)] by (simp add: tag_write_def del: JSON_stringify.simps)
    with get_written [of "map tag_write DEFAULT_TAGS" "tag_write t" ?ls "[]" ?C] dt that
    show ?thesis by (simp add: s1 del: JSON_stringify.simps)
  qed
  have get_c: "StorageAdapter_get (local_storage st1) (fst (command_write c)) = Some (snd (command_write c))"
    if "c \<in> set DEFAULT_COMMANDS" for c
  proof -
    have "adapter_prefix @ fst (command_write c) \<notin> fst ` set ?ls"
      using list_empty_fresh [OF assms(5)] by (simp add: command_write_def del: JSON_stringify.simps)
    moreover have "fst (command_write c) \<noteq> fst (tag_write t)" for t
      by (simp add: tag_write_def command_write_def)
    then have "adapter_prefix @ fst (command_write c) \<notin> fst ` set ?T"
      by (auto simp: stored_as_def)
    ultimately show ?thesis
      using get_written [of "map command_write DEFAULT_COMMANDS" "command_write c" ?ls ?T "[]"] dc that
      by (simp add: s1 del: JSON_stringify.simps)
  qed
  have wt: "JSON_parse (snd (tag_write t)) = Parsed (Tag_json t)" "snd (tag_write t) \<noteq> []"
    if "t \<in> set DEFAULT_TAGS" for t
    using parse_Tag [OF default_ids_safe(1) [OF that]]
    by (simp_all add: tag_write_def Tag_json_def del: JSON_stringify.simps(3,4))
  have wc: "JSON_parse (snd (command_write c)) = Parsed (Command_json c)" "snd (command_write c) \<noteq> []"
    "as_Command (Command_json c) = Some c"
    if "c \<in> set DEFAULT_COMMANDS" for c
    using parse_Command [OF default_seven [OF that] default_ids_safe(2) [OF that]]
      as_Command_json [OF default_seven [OF that]]
    by (simp_all add: command_write_def Command_json_def del: JSON_stringify.simps(3,4,5))
  have rt: "load_records as_Tag (local_storage st1) [''dsttag:1'', ''dsttag:2'', ''dsttag:3''] = Some DEFAULT_TAGS"
    unfolding default_tag_writes [symmetric]
    using wt get_t as_Tag_json by (intro load_written [where to_json = Tag_json]) blast
  have rc: "load_records as_Command (local_storage st1) [''dst:1'', ''dst:2'', ''dst:3''] = Some DEFAULT_COMMANDS"
    unfolding default_command_writes [symmetric]
    using wc get_c by (intro load_written [where to_json = Command_json]) blast
  have again: "loadData refuses' st2
      = Some (st2\<lparr>tags := DEFAULT_TAGS, commands := DEFAULT_COMMANDS, loading := False\<rparr>)"
    if st2: "window_storage st2" "mounted st2" "local_storage st2 = local_storage st1" for refuses' st2
  proof -
    have lt2: "load_tags refuses' st2 = Some (st2\<lparr>tags := DEFAULT_TAGS\<rparr>)"
      using st2(2)
      by (simp add: load_tags_def st2(3) keys rt sorted_defaults Let_def del: load_records.simps)
    have lc2: "load_commands refuses' (st2\<lparr>tags := DEFAULT_TAGS\<rparr>)
        = Some (st2\<lparr>tags := DEFAULT_TAGS, commands := DEFAULT_COMMANDS\<rparr>)"
      using st2(2)
      by (simp add: load_commands_def st2(3) keys rc sorted_defaults Let_def del: load_records.simps)
    show ?thesis
      using st2(1,2) by (simp add: loadData_def lt2 lc2)
  qed
  have same: "st1\<lparr>tags := DEFAULT_TAGS, commands := DEFAULT_COMMANDS, loading := False\<rparr> = st1"
    by (simp add: st1_def)
  have second: "loadData refuses st1 = Some st1"
    using again [OF s1(1,2) refl, of refuses] by (simp only: same)
  have ids: "map tag_id DEFAULT_TAGS = [1, 2, 3]" "map cmd_id DEFAULT_COMMANDS = [1, 2, 3]"
    by (simp_all add: DEFAULT_TAGS_def DEFAULT_COMMANDS_def)
  show ?thesis
    using first second s1 keys ids again by simp
qed

theorem load_on_empty_store_witness:
  "window_storage (mount []) \<and> mounted (mount [])
   \<and> StorageAdapter_list (local_storage (mount [])) ''dsttag:'' = []
   \<and> StorageAdapter_list (local_storage (mount [])) ''dst:'' = []
   \<and> (\<exists>st1. loadData accepts_all (mount []) = Some st1
          \<and> tags st1 = DEFAULT_TAGS \<and> commands st1 = DEFAULT_COMMANDS
          \<and> map fst (local_storage st1)
              = [''dst_app_dsttag:1'', ''dst_app_dsttag:2'', ''dst_app_dsttag:3'',
                 ''dst_app_dst:1'', ''dst_app_dst:2'', ''dst_app_dst:3'']
          \<and> StorageAdapter_get (local_storage st1) ''dsttag:2''
              = Some ''{\"id\":2,\"name\":\"Spawning\",\"color\":\"#8b5cf6\"}''
          \<and> StorageAdapter_get (local_storage st1) ''dst:1''
              = Some ''{\"id\":1,\"name\":\"God Mode\",\"command\":\"c_godmode()\",\"image\":\"https://static.wikia.nocookie.net/dont-starve-game/images/4/42/Wilson_Portrait.png/revision/latest?cb=20160723191003\",\"tags\":[\"Admin\"],\"favorite\":false,\"category\":null}''
          \<and> tags (mount (local_storage st1)) = [] \<and> commands (mount (local_storage st1)) = []
          \<and> loadData accepts_all (mount (local_storage st1))
              = Some ((mount (local_storage st1))
                        \<lparr>tags := DEFAULT_TAGS, commands := DEFAULT_COMMANDS, loading := False\<rparr>))"
proof -
  have a: "\<And>ls k v. \<not> accepts_all ls k v"
    by (simp add: accepts_all_def)
  have b: "window_storage (mount [])" "mounted (mount [])"
    "StorageAdapter_list (local_storage (mount [])) ''dsttag:'' = []"
    "StorageAdapter_list (local_storage (mount [])) ''dst:'' = []"
    by (simp_all add: mount_def StorageAdapter_list_def)
  from load_on_empty_store [of accepts_all "mount []", OF a b]
  obtain st1 where st1: "loadData accepts_all (mount []) = Some st1"
    "tags st1 = DEFAULT_TAGS" "commands st1 = DEFAULT_COMMANDS"
    "local_storage st1 = local_storage (mount []) @ map stored_as (map tag_write DEFAULT_TAGS)
                                              @ map stored_as (map command_write DEFAULT_COMMANDS)"
    and again: "\<forall>refuses' st2. window_storage st2 \<and> mounted st2 \<and> local_storage st2 = local_storage st1 \<longrightarrow>
           loadData refuses' st2
             = Some (st2\<lparr>tags := DEFAULT_TAGS, commands := DEFAULT_COMMANDS, loading := False\<rparr>)"
    by blast
  have keys: "map fst (local_storage st1)
      = [''dst_app_dsttag:1'', ''dst_app_dsttag:2'', ''dst_app_dsttag:3'',
         ''dst_app_dst:1'', ''dst_app_dst:2'', ''dst_app_dst:3'']"
    by (simp add: st1(4) mount_def stored_as_def o_def DEFAULT_TAGS_def DEFAULT_COMMANDS_def
        tag_write_def command_write_def show_small adapter_prefix_def del: JSON_stringify.simps)
  have tag2: "StorageAdapter_get (local_storage st1) ''dsttag:2''
      = Some ''{\"id\":2,\"name\":\"Spawning\",\"color\":\"#8b5cf6\"}''"
    by (simp add: st1(4) mount_def stored_as_def DEFAULT_TAGS_def DEFAULT_COMMANDS_def
        tag_write_def command_write_def show_small adapter_prefix_def StorageAdapter_get_def getItem_def
        Tag_json_def quote_def escape_char_def code_def)
  have cmd1: "StorageAdapter_get (local_storage st1) ''dst:1''
      = Some ''{\"id\":1,\"name\":\"God Mode\",\"command\":\"c_godmode()\",\"image\":\"https://static.wikia.nocookie.net/dont-starve-game/images/4/42/Wilson_Portrait.png/revision/latest?cb=20160723191003\",\"tags\":[\"Admin\"],\"favorite\":false,\"category\":null}''"
    by (simp add: st1(4) mount_def stored_as_def DEFAULT_TAGS_def DEFAULT_COMMANDS_def
        tag_write_def command_write_def show_small adapter_prefix_def StorageAdapter_get_def getItem_def
        Command_json_def Command_members_def default_keys_def List.map_filter_simps
        quote_def escape_char_def code_def)
  have new: "tags (mount (local_storage st1)) = []" "commands (mount (local_storage st1)) = []"
    "window_storage (mount (local_storage st1))" "mounted (mount (local_storage st1))"
    "local_storage (mount (local_storage st1)) = local_storage st1"
    by (simp_all add: mount_def)
  from again new(3-5) have second: "loadData accepts_all (mount (local_storage st1))
      = Some ((mount (local_storage st1))
                \<lparr>tags := DEFAULT_TAGS, commands := DEFAULT_COMMANDS, loading := False\<rparr>)"
    by blast
  have "\<exists>st1. loadData accepts_all (mount []) = Some st1
          \<and> tags st1 = DEFAULT_TAGS \<and> commands st1 = DEFAULT_COMMANDS
          \<and> map fst (local_storage st1)
              = [''dst_app_dsttag:1'', ''dst_app_dsttag:2'', ''dst_app_dsttag:3'',
                 ''dst_app_dst:1'', ''dst_app_dst:2'', ''dst_app_dst:3'']
          \<and> StorageAdapter_get (local_storage st1) ''dsttag:2''
              = Some ''{\"id\":2,\"name\":\"Spawning\",\"color\":\"#8b5cf6\"}''
          \<and> StorageAdapter_get (local_storage st1) ''dst:1''
              = Some ''{\"id\":1,\"name\":\"God Mode\",\"command\":\"c_godmode()\",\"image\":\"https://static.wikia.nocookie.net/dont-starve-game/images/4/42/Wilson_Portrait.png/revision/latest?cb=20160723191003\",\"tags\":[\"Admin\"],\"favorite\":false,\"category\":null}''
          \<and> tags (mount (local_storage st1)) = [] \<and> commands (mount (local_storage st1)) = []
          \<and> loadData accepts_all (mount (local_storage st1))
              = Some ((mount (local_storage st1))
                        \<lparr>tags := DEFAULT_TAGS, commands := DEFAULT_COMMANDS, loading := False\<rparr>)"
    by (rule exI [of _ st1]) (simp only: st1(1,2,3) keys tag2 cmd1 new(1,2) second simp_thms)
  with b show ?thesis by (simp only: simp_thms)
qed

end
